theory Spec2Isabelle
  imports Complex_Main "HOL-Library.Sublist"
begin

section \<open>Free-space propagation of a focusing Gaussian beam: the example script\<close>

text \<open>
  The development embeds \<^verbatim>\<open>examples/example_FreeSpacePropagation_FocusingGaussian.py\<close>.
  Python floats and numpy \<^verbatim>\<open>float64\<close> values are read as real numbers and
  \<^verbatim>\<open>complex128\<close> values as complex numbers, so every statement below is a statement of
  exact arithmetic (the reals have no NaN and no infinity, and no operation rounds); the one
  exception is the transverse grid, whose float64 samples are modelled with the rounding of
  every operation. A one-dimensional array is a list, a two- or three-dimensional array a
  nested list in row-major order (a nested list stands for an array only when it is
  rectangular). The names the script takes from \<^verbatim>\<open>beamPropagator_source\<close> are not part
  of the file; they are parameters of the model, collected in the record \<open>lib\<close> below.
\<close>

subsection \<open>Exceptions\<close>

datatype error =
    ValueError | IndexError | NameError | TypeError | ZeroDivisionError
  | ImportError | LibError string

subsection \<open>numpy primitives used by the script\<close>

text \<open>
  \<^verbatim>\<open>np.linspace(start, stop, num)\<close>: \<^verbatim>\<open>arange(num) * step + start\<close> with
  \<^verbatim>\<open>step = (stop - start) / (num - 1)\<close>, the last sample then overwritten by \<^verbatim>\<open>stop\<close>.
\<close>

definition linspace :: "real \<Rightarrow> real \<Rightarrow> nat \<Rightarrow> real list" where
  "linspace start stop num =
     (let step = (stop - start) / real (num - 1);
          ys = map (\<lambda>i. real i * step + start) [0..<num]
      in if 1 < num then butlast ys @ [stop] else ys)"

text \<open>\<^verbatim>\<open>np.meshgrid(x, y)\<close> with the default \<^verbatim>\<open>indexing='xy'\<close>.\<close>

definition meshgrid :: "'a list \<Rightarrow> 'a list \<Rightarrow> 'a list list \<times> 'a list list" where
  "meshgrid xs ys = (map (\<lambda>_. xs) ys, map (\<lambda>v. map (\<lambda>_. v) xs) ys)"

text \<open>\<^verbatim>\<open>np.argmin\<close>: the first index of a smallest entry; an empty array raises.\<close>

fun argmin_from :: "nat \<Rightarrow> nat \<Rightarrow> real \<Rightarrow> real list \<Rightarrow> nat" where
  "argmin_from i b v [] = b"
| "argmin_from i b v (x # xs) =
     (if x < v then argmin_from (Suc i) i x xs else argmin_from (Suc i) b v xs)"

definition argmin :: "real list \<Rightarrow> error + nat" where
  "argmin xs = (case xs of [] \<Rightarrow> Inl ValueError | x # rest \<Rightarrow> Inr (argmin_from 1 0 x rest))"

text \<open>\<^verbatim>\<open>np.max\<close> and \<^verbatim>\<open>np.min\<close> (also as methods); an empty array raises.\<close>

definition amax :: "real list \<Rightarrow> error + real" where
  "amax xs = (if xs = [] then Inl ValueError else Inr (Max (set xs)))"

definition amin :: "real list \<Rightarrow> error + real" where
  "amin xs = (if xs = [] then Inl ValueError else Inr (Min (set xs)))"

text \<open>
  The shape of a two-dimensional array, and numpy's broadcasting of two such arrays in an
  elementwise operation: along each axis the extents agree or one of them is 1.
\<close>

definition shape2 :: "'a list list \<Rightarrow> nat \<times> nat" where
  "shape2 A = (length A, case A of [] \<Rightarrow> 0 | r # _ \<Rightarrow> length r)"

definition bc_dim :: "nat \<Rightarrow> nat \<Rightarrow> nat option" where
  "bc_dim m n = (if m = n then Some m else if m = 1 then Some n else if n = 1 then Some m else None)"

definition stretch :: "nat \<Rightarrow> 'a list \<Rightarrow> 'a list" where
  "stretch n xs = (if length xs = n then xs else replicate n (hd xs))"

definition broadcast2 ::
  "('a \<Rightarrow> 'b \<Rightarrow> 'c) \<Rightarrow> 'a list list \<Rightarrow> 'b list list \<Rightarrow> error + 'c list list" where
  "broadcast2 f A B =
     (case (bc_dim (fst (shape2 A)) (fst (shape2 B)), bc_dim (snd (shape2 A)) (snd (shape2 B))) of
        (Some r, Some c) \<Rightarrow>
          Inr (map2 (map2 f) (stretch r (map (stretch c) A)) (stretch r (map (stretch c) B)))
      | _ \<Rightarrow> Inl ValueError)"

text \<open>Boolean-mask assignment \<^verbatim>\<open>a[P(a)] = v\<close> on the contents of a one-dimensional array.\<close>

definition mask_assign :: "(real \<Rightarrow> bool) \<Rightarrow> real \<Rightarrow> real list \<Rightarrow> real list" where
  "mask_assign P v xs = map (\<lambda>x. if P x then v else x) xs"

text \<open>
  Basic slices of a three-dimensional array \<open>F\<close>: \<^verbatim>\<open>F[:, m, :]\<close>, \<^verbatim>\<open>F[:, m, k]\<close>,
  \<^verbatim>\<open>F[:, :, k]\<close> and \<^verbatim>\<open>F.shape[-1]\<close>. An index beyond an axis raises. A nested list with no
  entry along its first axis carries no length for the other axes, so a slice of it is empty
  here, where numpy still checks the index against the other axes; the properties of the
  slices below are stated for arrays with a first axis of positive length.
\<close>

definition view_row :: "'a list list list \<Rightarrow> nat \<Rightarrow> error + 'a list list" where
  "view_row F m =
     (if \<forall>p \<in> set F. m < length p then Inr (map (\<lambda>p. p ! m) F) else Inl IndexError)"

definition view_col :: "'a list list list \<Rightarrow> nat \<Rightarrow> nat \<Rightarrow> error + 'a list" where
  "view_col F m k =
     (if \<forall>p \<in> set F. m < length p \<and> k < length (p ! m)
      then Inr (map (\<lambda>p. p ! m ! k) F) else Inl IndexError)"

definition view_plane :: "'a list list list \<Rightarrow> nat \<Rightarrow> error + 'a list list" where
  "view_plane F k =
     (if \<forall>p \<in> set F. \<forall>r \<in> set p. k < length r
      then Inr (map (map (\<lambda>r. r ! k)) F) else Inl IndexError)"

definition shape_last :: "'a list list list \<Rightarrow> nat" where
  "shape_last F = (case F of [] \<Rightarrow> 0 | p # _ \<Rightarrow> (case p of [] \<Rightarrow> 0 | r # _ \<Rightarrow> length r))"

text \<open>\<^verbatim>\<open>np.zeros_like(A, dtype=np.float64)\<close> and the column assignment \<^verbatim>\<open>T[:, k] = f\<close>.\<close>

definition zeros_like :: "'a list list \<Rightarrow> real list list" where
  "zeros_like A = map (map (\<lambda>_. 0.0)) A"

definition set_col :: "real list list \<Rightarrow> nat \<Rightarrow> real list \<Rightarrow> error + real list list" where
  "set_col T k f =
     (if \<exists>r \<in> set T. length r \<le> k then Inl IndexError
      else if length f = length T then Inr (map2 (\<lambda>r v. r[k := v]) T f)
      else if length f = 1 then Inr (map (\<lambda>r. r[k := hd f]) T)
      else Inl ValueError)"

subsection \<open>Laser parameters and the quantities derived from them (lines 30 to 56)\<close>

text \<open>
  The dictionary \<^verbatim>\<open>laserParameters\<close>; the key \<^verbatim>\<open>'w_z0'\<close> is absent until line 56 adds it.
  The units \<^verbatim>\<open>um\<close> and \<^verbatim>\<open>fs\<close> come from the library.
\<close>

record laserParams =
  lp_lambda0 :: real
  lp_tau :: real
  lp_E0 :: real
  lp_xOffset :: real
  lp_yOffset :: real
  lp_shape :: string
  lp_n :: int
  lp_w0 :: real
  lp_w_z0 :: "real option"

definition laserParameters :: "real \<Rightarrow> real \<Rightarrow> laserParams" where
  "laserParameters um fs =
     \<lparr> lp_lambda0 = 0.800 * um, lp_tau = 100.0 * fs, lp_E0 = 1.0,
       lp_xOffset = 0.0 * um, lp_yOffset = 0.0 * um, lp_shape = ''gaussian'',
       lp_n = 2, lp_w0 = 30.0 * um, lp_w_z0 = None \<rparr>"

text \<open>In the next definitions \<open>zR\<close> is the value returned by \<^verbatim>\<open>get_zr(laserParameters)\<close>.\<close>

definition zMax :: "real \<Rightarrow> real" where "zMax zR = 2.0 * 3.0 * zR"
definition zf :: "real \<Rightarrow> real" where "zf zR = 3.0 * zR"
definition z0 :: "real \<Rightarrow> real" where "z0 zR = - zf zR"
definition Rz :: "real \<Rightarrow> real" where "Rz zR = z0 zR * (1.0 + (zR / z0 zR) ^ 2)"
definition w_z0 :: "real \<Rightarrow> real \<Rightarrow> real" where
  "w_z0 w0 zR = w0 * sqrt (1.0 + (z0 zR / zR) ^ 2)"

subsection \<open>Computational parameters and grids (lines 60 to 71)\<close>

definition n_pts :: nat where "n_pts = 512"
definition res :: "real \<Rightarrow> real" where "res um = 1 * um"
definition nz :: nat where "nz = 512"
definition mid :: nat where "mid = nat \<lfloor>real n_pts / 2\<rfloor>"

definition x_grid :: "real \<Rightarrow> real list" where
  "x_grid um = linspace (- res um * real n_pts / 2) (res um * real n_pts / 2) n_pts"

definition y_grid :: "real \<Rightarrow> real list" where
  "y_grid um = linspace (- res um * real n_pts / 2) (res um * real n_pts / 2) n_pts"

definition X_grid :: "real \<Rightarrow> real list list" where
  "X_grid um = fst (meshgrid (x_grid um) (y_grid um))"

definition Y_grid :: "real \<Rightarrow> real list list" where
  "Y_grid um = snd (meshgrid (x_grid um) (y_grid um))"

definition z_grid :: "real \<Rightarrow> real list" where
  "z_grid zR = linspace 0 (zMax zR) nz"

subsection \<open>The phase profile and the complex input beam (lines 80 to 91)\<close>

text \<open>
  Line 83 (and again line 191) recomputes the Rayleigh range from the waist and the wavelength;
  line 86 (\<^verbatim>\<open>k\<close>) and line 134 (\<^verbatim>\<open>k0\<close>) both are \<^verbatim>\<open>2.0*np.pi/lambda0\<close>.
\<close>

definition rayleigh :: "real \<Rightarrow> real \<Rightarrow> real" where
  "rayleigh w0 lambda0 = pi * w0 ^ 2 / lambda0"

definition k0 :: "real \<Rightarrow> real" where
  "k0 lambda0 = 2.0 * pi / lambda0"

definition R_sq :: "real list list \<Rightarrow> real list list \<Rightarrow> real list list" where
  "R_sq X Y = map2 (map2 (\<lambda>a b. a ^ 2 + b ^ 2)) X Y"

definition guoy :: "real \<Rightarrow> real \<Rightarrow> real" where
  "guoy z zR = arctan (z / zR)"

definition inputPhase ::
  "real \<Rightarrow> real \<Rightarrow> real \<Rightarrow> real list list \<Rightarrow> real list list \<Rightarrow> real list list" where
  "inputPhase k R g X Y = map (map (\<lambda>r. k * r / (2.0 * R) - g)) (R_sq X Y)"

text \<open>Line 91: \<^verbatim>\<open>inputBeam * np.exp(-1j * inputPhase)\<close>, an elementwise product.\<close>

definition apply_phase :: "real list list \<Rightarrow> real list list \<Rightarrow> error + complex list list" where
  "apply_phase amp ph =
     broadcast2 (\<lambda>a p. complex_of_real a * exp (- \<i> * complex_of_real p)) amp ph"

text \<open>
  Lines 80 to 91 as a function of the units, of the value \<open>zR\<close> that \<^verbatim>\<open>get_zr\<close> returned and
  of the amplitude \<open>amp\<close> that \<^verbatim>\<open>make_inputBeam\<close> returned. The divisions of lines 83, 86 and
  88 are divisions of Python floats, which raise on a zero divisor.
\<close>

definition initial_field ::
  "real \<Rightarrow> real \<Rightarrow> real \<Rightarrow> real list list \<Rightarrow> error + complex list list" where
  "initial_field um fs zR amp =
     (let lp = laserParameters um fs;
          w0 = lp_w0 lp;
          lambda0 = lp_lambda0 lp
      in if lambda0 = 0 then Inl ZeroDivisionError
         else let zR' = rayleigh w0 lambda0;
                  k = k0 lambda0
              in if zR' = 0 then Inl ZeroDivisionError
                 else apply_phase amp
                        (inputPhase k (Rz zR) (guoy (z0 zR) zR') (X_grid um) (Y_grid um)))"

subsection \<open>Plasma density and refractive index (lines 119 to 134)\<close>

definition ne :: "real list list list" where
  "ne = replicate n_pts (replicate n_pts (replicate nz 0))"

definition absorbingBoundaries :: int where "absorbingBoundaries = 1"

definition eta0 :: real where "eta0 = 1.0"

definition eta :: "real list \<Rightarrow> real list list list" where
  "eta z = map (map (map (\<lambda>v. eta0 * v))) (replicate n_pts (replicate n_pts (replicate (length z) 1)))"

subsection \<open>Analytic comparison (lines 185 to 194 and 224)\<close>

text \<open>The threshold factor \<^verbatim>\<open>np.e**(-2)\<close> and the two masking assignments of lines 185, 186
  (\<open>tp\<close> is the value of \<^verbatim>\<open>top\<close>).\<close>

definition e_m2 :: real where "e_m2 = exp 1 powr (- 2)"

definition mask_le :: "real \<Rightarrow> real list \<Rightarrow> real list" where
  "mask_le tp f = mask_assign (\<lambda>v. v \<le> tp * e_m2) 0.0 f"

definition mask_gt :: "real \<Rightarrow> real list \<Rightarrow> real list" where
  "mask_gt tp f = mask_assign (\<lambda>v. v > tp * e_m2) 1.0 f"

text \<open>Lines 190 to 194: the analytic waist on the grid \<open>z\<close>.\<close>

definition w_analytical :: "real \<Rightarrow> real \<Rightarrow> real list \<Rightarrow> real list" where
  "w_analytical w0 lambda0 z =
     (let w0' = w0 * 1.00;
          zR = rayleigh w0' lambda0;
          zf' = zf zR;
          zc = map (\<lambda>v. v - zf') z
      in map (\<lambda>c. w0' * sqrt (1.0 + (c / zR) ^ 2)) zc)"

text \<open>Line 224: \<^verbatim>\<open>idx = np.argmin((z-zf)**2)\<close>.\<close>

definition focal_idx :: "real list \<Rightarrow> real \<Rightarrow> error + nat" where
  "focal_idx z zf' = argmin (map (\<lambda>v. (v - zf') ^ 2) z)"

subsection \<open>Arrays on the transverse grid\<close>

text \<open>An array with one entry for each point of the \<open>n_pts\<close> by \<open>n_pts\<close> grid.\<close>

definition on_grid :: "'a list list \<Rightarrow> bool" where
  "on_grid A = (length A = n_pts \<and> list_all (\<lambda>r. length r = n_pts) A)"

subsection \<open>The library the script imports, and what a run leaves behind\<close>

text \<open>
  Everything the script obtains from \<^verbatim>\<open>beamPropagator_source\<close> (and, for plotting, from
  matplotlib) is a field of \<open>lib\<close>: the units, the functions it calls, each of which returns
  a value or raises, and whether the star import binds the name \<^verbatim>\<open>matplotlib\<close> that line 164
  reads. A library function is a function of its arguments. The values the script only hands
  from \<^verbatim>\<open>setup_propagate\<close> on to \<^verbatim>\<open>propagate_in_z\<close>, and the objects a plotting helper returns,
  have the opaque type \<open>'o\<close>. A matplotlib call is identified by its line; its arguments are
  not modelled, and whether it raises is a parameter.
\<close>

type_synonym 'o setup_result =
  "'o \<times> 'o \<times> 'o \<times> 'o \<times> 'o \<times> real list list \<times> real list list \<times> real list \<times> real list list list"

record 'o lib =
  um :: real
  fs :: real
  import_raises :: "string \<Rightarrow> error option"
  get_zr :: "laserParams \<Rightarrow> error + real"
  make_inputBeam :: "real list list \<Rightarrow> real list list \<Rightarrow> laserParams \<Rightarrow> error + real list list"
  shadow :: "complex list list \<Rightarrow> error + real list list"
  phase :: "complex list list \<Rightarrow> error + real list list"
  setup_propagate ::
    "complex list list \<Rightarrow> real list list \<Rightarrow> real list list \<Rightarrow> real list \<Rightarrow>
     real list list list \<Rightarrow> real \<Rightarrow> real \<Rightarrow> int \<Rightarrow> error + 'o setup_result"
  propagate_in_z ::
    "'o \<Rightarrow> 'o \<Rightarrow> 'o \<Rightarrow> 'o \<Rightarrow> 'o \<Rightarrow> real list list \<Rightarrow> real list list \<Rightarrow> real list \<Rightarrow>
     real list list list \<Rightarrow> real \<Rightarrow> error + complex list list list"
  explorer :: "complex list list list \<Rightarrow> real list list list \<Rightarrow> real list \<Rightarrow> error + 'o"
  MidpointNormalize :: "real \<Rightarrow> real \<Rightarrow> real \<Rightarrow> error + 'o"
  matplotlib_bound :: bool
  mpl_raises :: "nat \<Rightarrow> error option"

text \<open>The calls a run makes, in order, each with the arguments it was given.\<close>

datatype 'o event =
    Ev_import string
  | Ev_get_zr laserParams
  | Ev_make_inputBeam "real list list" "real list list" laserParams
  | Ev_shadow "complex list list"
  | Ev_phase "complex list list"
  | Ev_setup_propagate "complex list list" "real list list" "real list list" "real list"
      "real list list list" real real int
  | Ev_propagate_in_z 'o 'o 'o 'o 'o "real list list" "real list list" "real list"
      "real list list list" real
  | Ev_explorer "complex list list list" "real list list list" "real list"
  | Ev_MidpointNormalize real real real
  | Ev_mpl nat string

text \<open>
  The arrays the script writes to in place, or whose sharing matters, live in a store: a list
  of buffers, an address being an index into it. Every other array is a value.
\<close>

type_synonym addr = nat

datatype buf =
    CBuf3 "complex list list list"
  | CBuf2 "complex list list"
  | CBuf1 "complex list"
  | RBuf2 "real list list"
  | RBuf1 "real list"

record 'o state =
  calls :: "'o event list"
  heap :: "buf list"

definition init_state :: "'o state" where
  "init_state = \<lparr> calls = [], heap = [] \<rparr>"

text \<open>
  A piece of the script takes the state and returns a value or the exception it raised,
  with the state reached: the calls made before an exception have been made.
\<close>

type_synonym ('o, 'a) prog = "'o state \<Rightarrow> (error + 'a) \<times> 'o state"

definition ret :: "'a \<Rightarrow> ('o, 'a) prog" where
  "ret v = (\<lambda>s. (Inr v, s))"

definition raise :: "error \<Rightarrow> ('o, 'a) prog" where
  "raise e = (\<lambda>s. (Inl e, s))"

definition bnd :: "('o, 'a) prog \<Rightarrow> ('a \<Rightarrow> ('o, 'b) prog) \<Rightarrow> ('o, 'b) prog" where
  "bnd m f = (\<lambda>s. case m s of (Inl e, s') \<Rightarrow> (Inl e, s') | (Inr v, s') \<Rightarrow> f v s')"

definition seq :: "('o, 'a) prog \<Rightarrow> ('o, 'b) prog \<Rightarrow> ('o, 'b) prog" where
  "seq m n = bnd m (\<lambda>_. n)"

definition lift :: "error + 'a \<Rightarrow> ('o, 'a) prog" where
  "lift r = (\<lambda>s. (r, s))"

definition guard :: "bool \<Rightarrow> error \<Rightarrow> ('o, unit) prog" where
  "guard b e = (if b then ret () else raise e)"

definition call :: "'o event \<Rightarrow> error + 'a \<Rightarrow> ('o, 'a) prog" where
  "call ev r = (\<lambda>s. (r, s\<lparr>calls := calls s @ [ev]\<rparr>))"

definition alloc :: "buf \<Rightarrow> ('o, addr) prog" where
  "alloc b = (\<lambda>s. (Inr (length (heap s)), s\<lparr>heap := heap s @ [b]\<rparr>))"

definition load :: "addr \<Rightarrow> ('o, buf) prog" where
  "load a = (\<lambda>s. if a < length (heap s) then (Inr (heap s ! a), s) else (Inl NameError, s))"

definition store_at :: "addr \<Rightarrow> buf \<Rightarrow> ('o, unit) prog" where
  "store_at a b =
     (\<lambda>s. if a < length (heap s) then (Inr (), s\<lparr>heap := (heap s)[a := b]\<rparr>)
          else (Inl NameError, s))"

fun for_loop :: "nat list \<Rightarrow> (nat \<Rightarrow> ('o, unit) prog) \<Rightarrow> ('o, unit) prog" where
  "for_loop [] body = ret ()"
| "for_loop (i # rest) body = bnd (body i) (\<lambda>_. for_loop rest body)"

text \<open>Reading a buffer at the type the script uses it at.\<close>

definition load_c3 :: "addr \<Rightarrow> ('o, complex list list list) prog" where
  "load_c3 a = bnd (load a) (\<lambda>b. case b of CBuf3 F \<Rightarrow> ret F | _ \<Rightarrow> raise TypeError)"

definition load_c2 :: "addr \<Rightarrow> ('o, complex list list) prog" where
  "load_c2 a = bnd (load a) (\<lambda>b. case b of CBuf2 F \<Rightarrow> ret F | _ \<Rightarrow> raise TypeError)"

definition load_c1 :: "addr \<Rightarrow> ('o, complex list) prog" where
  "load_c1 a = bnd (load a) (\<lambda>b. case b of CBuf1 F \<Rightarrow> ret F | _ \<Rightarrow> raise TypeError)"

definition load_r2 :: "addr \<Rightarrow> ('o, real list list) prog" where
  "load_r2 a = bnd (load a) (\<lambda>b. case b of RBuf2 F \<Rightarrow> ret F | _ \<Rightarrow> raise TypeError)"

definition load_r1 :: "addr \<Rightarrow> ('o, real list) prog" where
  "load_r1 a = bnd (load a) (\<lambda>b. case b of RBuf1 F \<Rightarrow> ret F | _ \<Rightarrow> raise TypeError)"

text \<open>Library, import and plotting calls: each is recorded, and returns or raises.\<close>

definition import_mod :: "'o lib \<Rightarrow> string \<Rightarrow> ('o, unit) prog" where
  "import_mod L name =
     call (Ev_import name) (case import_raises L name of Some e \<Rightarrow> Inl e | None \<Rightarrow> Inr ())"

definition mpl :: "'o lib \<Rightarrow> nat \<Rightarrow> string \<Rightarrow> ('o, unit) prog" where
  "mpl L line name =
     call (Ev_mpl line name) (case mpl_raises L line of Some e \<Rightarrow> Inl e | None \<Rightarrow> Inr ())"

subsection \<open>The script, cell by cell\<close>

text \<open>Lines 19 to 24.\<close>

definition cell_imports :: "'o lib \<Rightarrow> ('o, unit) prog" where
  "cell_imports L =
     seq (import_mod L ''numpy'')
    (seq (import_mod L ''matplotlib.pyplot'')
    (seq (import_mod L ''sys'')
         (import_mod L ''beamPropagator_source'')))"

text \<open>
  Lines 30 to 56. The quotients \<^verbatim>\<open>zR/z0\<close> (line 51) and \<^verbatim>\<open>z0/zR\<close> (line 54) are quotients of
  Python floats. The result is the dictionary with \<^verbatim>\<open>'w_z0'\<close> added, and \<open>zR\<close>.
\<close>

definition cell_laser :: "'o lib \<Rightarrow> ('o, laserParams \<times> real) prog" where
  "cell_laser L =
     (let lp = laserParameters (um L) (fs L) in
      bnd (call (Ev_get_zr lp) (get_zr L lp)) (\<lambda>zR.
      seq (guard (z0 zR \<noteq> 0) ZeroDivisionError)
     (seq (guard (zR \<noteq> 0) ZeroDivisionError)
          (ret (lp\<lparr>lp_w_z0 := Some (w_z0 (lp_w0 lp) zR)\<rparr>, zR)))))"

text \<open>Lines 68 to 112: the grids, the input beam, and the two panels that show it.\<close>

definition cell_grid :: "'o lib \<Rightarrow> laserParams \<Rightarrow> real \<Rightarrow> ('o, complex list list) prog" where
  "cell_grid L lp zR =
     bnd (call (Ev_make_inputBeam (X_grid (um L)) (Y_grid (um L)) lp)
            (make_inputBeam L (X_grid (um L)) (Y_grid (um L)) lp)) (\<lambda>amp.
     bnd (lift (initial_field (um L) (fs L) zR amp)) (\<lambda>inputBeam.
     seq (mpl L 95 ''plt.subplots'')
    (seq (mpl L 96 ''fig.suptitle'')
    (seq (mpl L 100 ''ax1.set_title'')
    (bnd (call (Ev_shadow inputBeam) (shadow L inputBeam)) (\<lambda>t.
     seq (mpl L 102 ''ax1.imshow'')
    (seq (mpl L 108 ''ax1.plot'')
    (seq (mpl L 111 ''ax2.set_title'')
    (bnd (call (Ev_phase inputBeam) (phase L inputBeam)) (\<lambda>p.
     seq (mpl L 112 ''ax2.imshow'')
         (ret inputBeam)))))))))))"

text \<open>Lines 119 to 136: vacuum, and the first step of the propagation.\<close>

definition cell_setup ::
  "'o lib \<Rightarrow> complex list list \<Rightarrow> real \<Rightarrow> ('o, 'o setup_result) prog" where
  "cell_setup L inputBeam zR =
     (let z = z_grid zR;
          k = k0 (lp_lambda0 (laserParameters (um L) (fs L)))
      in call (Ev_setup_propagate inputBeam (X_grid (um L)) (Y_grid (um L)) z (eta z) k eta0
                 absorbingBoundaries)
              (setup_propagate L inputBeam (X_grid (um L)) (Y_grid (um L)) z (eta z) k eta0
                 absorbingBoundaries))"

text \<open>Line 143. The array returned becomes the object the name \<^verbatim>\<open>Field\<close> refers to.\<close>

definition cell_propagate :: "'o lib \<Rightarrow> 'o setup_result \<Rightarrow> real \<Rightarrow> ('o, addr) prog" where
  "cell_propagate L r k =
     (case r of (AS, xFreq, yFreq, G, msk, X, Y, z, et) \<Rightarrow>
        bnd (call (Ev_propagate_in_z AS xFreq yFreq G msk X Y z et k)
               (propagate_in_z L AS xFreq yFreq G msk X Y z et k)) (\<lambda>F.
        alloc (CBuf3 F)))"

text \<open>Line 149.\<close>

definition cell_explorer :: "'o lib \<Rightarrow> addr \<Rightarrow> real list \<Rightarrow> ('o, unit) prog" where
  "cell_explorer L Field_ref z =
     bnd (load_c3 Field_ref) (\<lambda>F.
     bnd (call (Ev_explorer F ne z) (explorer L F ne z)) (\<lambda>buttons.
     ret ()))"

text \<open>
  Lines 181 to 187, one pass of the loop body for the index \<open>zi\<close>: \<^verbatim>\<open>.copy()\<close> and
  \<^verbatim>\<open>np.abs(f)**2\<close> each make a new array, the two masked assignments write into the latter,
  and the last line writes a column of \<^verbatim>\<open>thresh\<close>.
\<close>

definition thresh_iter :: "addr \<Rightarrow> addr \<Rightarrow> nat \<Rightarrow> ('o, unit) prog" where
  "thresh_iter Field_ref thresh zi =
     bnd (load_c3 Field_ref) (\<lambda>F.
     bnd (lift (view_col F mid zi)) (\<lambda>v.
     bnd (alloc (CBuf1 v)) (\<lambda>f.
     bnd (load_c1 f) (\<lambda>fv.
     bnd (alloc (RBuf1 (map (\<lambda>c. (cmod c) ^ 2) fv))) (\<lambda>f.
     bnd (load_r1 f) (\<lambda>fv.
     bnd (lift (amax fv)) (\<lambda>tp.
     bnd (load_r1 f) (\<lambda>fv.
     seq (store_at f (RBuf1 (mask_le tp fv)))
    (bnd (load_r1 f) (\<lambda>fv.
     seq (store_at f (RBuf1 (mask_gt tp fv)))
    (bnd (load_r1 f) (\<lambda>fv.
     bnd (load_r2 thresh) (\<lambda>T.
     bnd (lift (set_col T zi fv)) (\<lambda>T'.
     store_at thresh (RBuf2 T')))))))))))))))"

text \<open>
  Lines 180 to 187: \<^verbatim>\<open>thresh\<close> is a new array of zeros with the shape of
  \<^verbatim>\<open>Field[:, mid, :]\<close>, and the loop runs over \<^verbatim>\<open>range(Field.shape[-1])\<close>. The result is
  the address of \<^verbatim>\<open>thresh\<close>.
\<close>

definition thresh_block :: "addr \<Rightarrow> ('o, addr) prog" where
  "thresh_block Field_ref =
     bnd (load_c3 Field_ref) (\<lambda>F.
     bnd (lift (view_row F mid)) (\<lambda>Fm.
     bnd (alloc (RBuf2 (zeros_like Fm))) (\<lambda>thresh.
     bnd (load_c3 Field_ref) (\<lambda>F.
     seq (for_loop [0..<shape_last F] (thresh_iter Field_ref thresh))
         (ret thresh)))))"

text \<open>
  Lines 155 to 176 and 190 to 202, around the loop. The values that only feed a plotting call are left out, except where
  computing them can raise: \<^verbatim>\<open>z.max()\<close> and \<^verbatim>\<open>z.min()\<close> in line 159, the slices of
  \<^verbatim>\<open>Field\<close>, and the name \<^verbatim>\<open>matplotlib\<close> in line 164, which is evaluated before
  \<^verbatim>\<open>MidpointNormalize\<close> is called. The result is the address of \<^verbatim>\<open>thresh\<close>.
\<close>

definition cell_compare :: "'o lib \<Rightarrow> addr \<Rightarrow> real list \<Rightarrow> ('o, addr) prog" where
  "cell_compare L Field_ref z =
     seq (mpl L 155 ''plt.subplots'')
    (seq (mpl L 157 ''fig.suptitle'')
    (seq (lift (amax z))
    (seq (lift (amin z))
    (bnd (load_c3 Field_ref) (\<lambda>F.
     bnd (lift (view_row F mid)) (\<lambda>Fm.
     bnd (call (Ev_shadow Fm) (shadow L Fm)) (\<lambda>sh.
     seq (mpl L 160 ''ax1.imshow'')
    (bnd (load_c3 Field_ref) (\<lambda>F.
     bnd (lift (view_row F mid)) (\<lambda>Fm.
     bnd (call (Ev_phase Fm) (phase L Fm)) (\<lambda>im.
     seq (guard (matplotlib_bound L) NameError)
    (bnd (call (Ev_MidpointNormalize 0.0 (- pi / 2.0) (pi / 2.0))
            (MidpointNormalize L 0.0 (- pi / 2.0) (pi / 2.0))) (\<lambda>norm.
     seq (mpl L 163 ''ax2.imshow'')
    (seq (mpl L 171 ''ax2.contour'')
    (seq (mpl L 173 ''ax1.set_xlabel'')
    (seq (mpl L 174 ''ax1.set_ylabel'')
    (seq (mpl L 175 ''ax2.set_xlabel'')
    (seq (mpl L 176 ''ax3.set_xlabel'')
    (bnd (thresh_block Field_ref) (\<lambda>thresh.
     seq (mpl L 195 ''ax3.imshow'')
    (seq (mpl L 196 ''ax3.plot'')
    (seq (mpl L 197 ''ax3.plot'')
    (seq (mpl L 199 ''ax1.set_title'')
    (seq (mpl L 200 ''ax2.set_title'')
    (seq (mpl L 201 ''ax3.set_title'')
    (seq (mpl L 202 ''ax3.legend'')
         (ret thresh)))))))))))))))))))))))))))"

text \<open>
  Lines 209 to 216. \<^verbatim>\<open>Zd\<close> (line 169) has one row for each sample of \<^verbatim>\<open>y\<close> and one column
  for each sample of \<^verbatim>\<open>z\<close>; its product with \<^verbatim>\<open>Field[:, mid, :]\<close> in line 211 is a new array.
\<close>

definition E_full :: "real \<Rightarrow> real list list \<Rightarrow> complex list list \<Rightarrow> error + real list list" where
  "E_full k Zd Fm =
     (case broadcast2 (\<lambda>zd c. exp (\<i> * complex_of_real (k * zd * 0.001)) * c) Zd Fm of
        Inl e \<Rightarrow> Inl e
      | Inr P \<Rightarrow> Inr (map (map Re) P))"

definition cell_wavefront :: "'o lib \<Rightarrow> addr \<Rightarrow> real list \<Rightarrow> ('o, unit) prog" where
  "cell_wavefront L Field_ref z =
     seq (mpl L 209 ''plt.figure'')
    (bnd (load_c3 Field_ref) (\<lambda>F.
     bnd (lift (view_row F mid)) (\<lambda>Fm.
     bnd (lift (E_full (k0 (lp_lambda0 (laserParameters (um L) (fs L))))
                 (fst (meshgrid (map (\<lambda>v. v * 1000) z) (map (\<lambda>v. v * 1000) (y_grid (um L))))) Fm))
       (\<lambda>E.
     seq (mpl L 212 ''plt.imshow'')
    (seq (mpl L 214 ''plt.title'')
    (seq (mpl L 215 ''plt.xlabel'')
         (mpl L 216 ''plt.ylabel'')))))))"

text \<open>
  Lines 224 to 250. \<open>zf\<close> is the focus position of line 192, computed from the Rayleigh range
  of line 191. The result is the address of \<^verbatim>\<open>focal_slice\<close>.
\<close>

definition cell_focus :: "'o lib \<Rightarrow> addr \<Rightarrow> real list \<Rightarrow> ('o, addr) prog" where
  "cell_focus L Field_ref z =
     (let lp = laserParameters (um L) (fs L);
          zf' = zf (rayleigh (lp_w0 lp * 1.00) (lp_lambda0 lp))
      in bnd (lift (focal_idx z zf')) (\<lambda>idx.
         bnd (load_c3 Field_ref) (\<lambda>F.
         bnd (lift (view_plane F idx)) (\<lambda>v.
         bnd (alloc (CBuf2 v)) (\<lambda>focal_slice.
         bnd (load_c2 focal_slice) (\<lambda>fsv.
         bnd (call (Ev_shadow fsv) (shadow L fsv)) (\<lambda>I.
         seq (lift (amax (concat I)))
        (seq (mpl L 233 ''plt.figure'')
        (seq (mpl L 234 ''plt.title'')
        (seq (mpl L 235 ''plt.imshow'')
        (seq (mpl L 237 ''plt.gca'')
        (seq (mpl L 238 ''ax.contour'')
        (seq (mpl L 239 ''ax.clabel'')
        (seq (mpl L 241 ''plt.xlabel'')
        (seq (mpl L 242 ''plt.ylabel'')
        (seq (mpl L 249 ''plt.plot'')
        (seq (mpl L 250 ''plt.legend'')
             (ret focal_slice))))))))))))))))))"

text \<open>
  The script up to and including line 143, then the rest of it, which receives the address
  \<open>Field_ref\<close> of \<^verbatim>\<open>Field\<close> and the grid \<open>z\<close> that \<^verbatim>\<open>setup_propagate\<close> returned.
\<close>

definition upto_propagate :: "'o lib \<Rightarrow> ('o, addr \<times> real list) prog" where
  "upto_propagate L =
     seq (cell_imports L)
    (bnd (cell_laser L) (\<lambda>(lp, zR).
     bnd (cell_grid L lp zR) (\<lambda>inputBeam.
     bnd (cell_setup L inputBeam zR) (\<lambda>r.
     bnd (cell_propagate L r (k0 (lp_lambda0 lp))) (\<lambda>Field_ref.
     ret (Field_ref, fst (snd (snd (snd (snd (snd (snd (snd r)))))))))))))"

definition after_propagate :: "'o lib \<Rightarrow> addr \<Rightarrow> real list \<Rightarrow> ('o, addr \<times> addr) prog" where
  "after_propagate L Field_ref z =
     seq (cell_explorer L Field_ref z)
    (bnd (cell_compare L Field_ref z) (\<lambda>thresh.
     seq (cell_wavefront L Field_ref z)
    (bnd (cell_focus L Field_ref z) (\<lambda>focal_slice.
     ret (thresh, focal_slice)))))"

definition script :: "'o lib \<Rightarrow> ('o, addr \<times> addr) prog" where
  "script L = bnd (upto_propagate L) (\<lambda>(Field_ref, z). after_propagate L Field_ref z)"

subsection \<open>Notions used to state the properties\<close>

text \<open>Which call an event is, whatever its arguments; a matplotlib call keeps its line.\<close>

datatype kind =
    K_import | K_get_zr | K_make_inputBeam | K_shadow | K_phase | K_setup_propagate
  | K_propagate_in_z | K_explorer | K_MidpointNormalize | K_mpl nat

fun kind_of :: "'o event \<Rightarrow> kind" where
  "kind_of (Ev_import n) = K_import"
| "kind_of (Ev_get_zr lp) = K_get_zr"
| "kind_of (Ev_make_inputBeam X Y lp) = K_make_inputBeam"
| "kind_of (Ev_shadow A) = K_shadow"
| "kind_of (Ev_phase A) = K_phase"
| "kind_of (Ev_setup_propagate b X Y z e k e0 ab) = K_setup_propagate"
| "kind_of (Ev_propagate_in_z a1 a2 a3 a4 a5 X Y z e k) = K_propagate_in_z"
| "kind_of (Ev_explorer F n z) = K_explorer"
| "kind_of (Ev_MidpointNormalize a b c) = K_MidpointNormalize"
| "kind_of (Ev_mpl line name) = K_mpl line"

text \<open>
  The three phases of a complete run, as sequences of calls: (a) imports, parameters, grids
  and the input beam with its two panels; (b) the propagation; (c) the viewer, the comparison
  with theory and the remaining plots.
\<close>

definition phase_a :: "kind list" where
  "phase_a =
     [K_import, K_import, K_import, K_import, K_get_zr, K_make_inputBeam,
      K_mpl 95, K_mpl 96, K_mpl 100, K_shadow, K_mpl 102, K_mpl 108, K_mpl 111, K_phase,
      K_mpl 112]"

definition phase_b :: "kind list" where
  "phase_b = [K_setup_propagate, K_propagate_in_z]"

definition phase_c :: "kind list" where
  "phase_c =
     [K_explorer,
      K_mpl 155, K_mpl 157, K_shadow, K_mpl 160, K_phase, K_MidpointNormalize, K_mpl 163,
      K_mpl 171, K_mpl 173, K_mpl 174, K_mpl 175, K_mpl 176, K_mpl 195, K_mpl 196, K_mpl 197,
      K_mpl 199, K_mpl 200, K_mpl 201, K_mpl 202,
      K_mpl 209, K_mpl 212, K_mpl 214, K_mpl 215, K_mpl 216,
      K_shadow, K_mpl 233, K_mpl 234, K_mpl 235, K_mpl 237, K_mpl 238, K_mpl 239, K_mpl 241,
      K_mpl 242, K_mpl 249, K_mpl 250]"

text \<open>
  A piece of the script emits the calls \<open>ks\<close>: whatever the state, the calls it adds are an
  initial part of \<open>ks\<close>, and all of \<open>ks\<close> when it returns.
\<close>

definition emits :: "('o, 'a) prog \<Rightarrow> kind list \<Rightarrow> bool" where
  "emits m ks =
     (\<forall>s. \<exists>ks'. map kind_of (calls (snd (m s))) = map kind_of (calls s) @ ks'
                \<and> prefix ks' ks \<and> (isl (fst (m s)) \<or> ks' = ks))"







text \<open>A piece of the script keeps the buffer at the address \<open>a\<close>.\<close>

definition keeps :: "addr \<Rightarrow> ('o, 'a) prog \<Rightarrow> bool" where
  "keeps a m =
     (\<forall>s. a < length (heap s)
          \<longrightarrow> a < length (heap (snd (m s))) \<and> heap (snd (m s)) ! a = heap s ! a)"

text \<open>Every call a piece of the script makes satisfies \<open>P\<close>, if those made before it do.\<close>

definition calls_all :: "('o event \<Rightarrow> bool) \<Rightarrow> ('o, 'a) prog \<Rightarrow> bool" where
  "calls_all P m = (\<forall>s. list_all P (calls s) \<longrightarrow> list_all P (calls (snd (m s))))"

text \<open>
  The arguments of the two calls that receive the medium: the density handed to the viewer
  is zero everywhere on the \<open>n_pts\<close> by \<open>n_pts\<close> by \<open>nz\<close> grid, and the index handed to
  \<^verbatim>\<open>setup_propagate\<close> is \<open>eta0 = 1\<close> everywhere on it.
\<close>

fun vacuum :: "'o event \<Rightarrow> bool" where
  "vacuum (Ev_explorer F n z) = (n = replicate n_pts (replicate n_pts (replicate nz 0)))"
| "vacuum (Ev_setup_propagate b X Y z e k e0 ab) =
     (e = replicate n_pts (replicate n_pts (replicate nz 1)) \<and> e0 = 1)"
| "vacuum ev = True"

text \<open>
  A library under which the script runs to its end: unit 1, every import and plotting call
  returns, \<^verbatim>\<open>get_zr\<close> returns 1, the amplitude and the plotting helpers return a one-pixel
  array, \<^verbatim>\<open>setup_propagate\<close> hands its grids back with a one-sample \<open>z\<close>, and
  \<^verbatim>\<open>propagate_in_z\<close> returns a field of shape 1 by 257 by 1.
\<close>

definition lib_ok :: "unit lib" where
  "lib_ok =
     \<lparr> um = 1, fs = 1,
       import_raises = (\<lambda>_. None),
       get_zr = (\<lambda>_. Inr 1),
       make_inputBeam = (\<lambda>_ _ _. Inr [[1]]),
       shadow = (\<lambda>_. Inr [[1]]),
       phase = (\<lambda>_. Inr [[1]]),
       setup_propagate = (\<lambda>b X Y z e k e0 ab. Inr ((), (), (), (), (), X, Y, [0], e)),
       propagate_in_z = (\<lambda>_ _ _ _ _ _ _ _ _ _. Inr [[3] # replicate 256 [3]]),
       explorer = (\<lambda>_ _ _. Inr ()),
       MidpointNormalize = (\<lambda>_ _ _. Inr ()),
       matplotlib_bound = True,
       mpl_raises = (\<lambda>_. None) \<rparr>"



text \<open>
  A three-dimensional array of the shape \<open>d0\<close> by \<open>d1\<close> by \<open>d2\<close>, and the column that the
  loop of lines 181 to 187 computes for the index \<open>zi\<close>: the intensities along
  \<^verbatim>\<open>Field[:, mid, zi]\<close>, masked as lines 185 and 186 do, in that order.
\<close>

definition is_array3 :: "nat \<Rightarrow> nat \<Rightarrow> nat \<Rightarrow> 'a list list list \<Rightarrow> bool" where
  "is_array3 d0 d1 d2 F =
     (length F = d0 \<and> list_all (\<lambda>p. length p = d1 \<and> list_all (\<lambda>r. length r = d2) p) F)"

definition intensity :: "complex list list list \<Rightarrow> nat \<Rightarrow> real list" where
  "intensity F zi = map (\<lambda>c. (cmod c) ^ 2) (map (\<lambda>p. p ! mid ! zi) F)"

definition thresh_col :: "complex list list list \<Rightarrow> nat \<Rightarrow> real list" where
  "thresh_col F zi =
     mask_gt (Max (set (intensity F zi))) (mask_le (Max (set (intensity F zi))) (intensity F zi))"

text \<open>The array \<^verbatim>\<open>thresh\<close> after line 187 has run for the index \<open>zi\<close>.\<close>

definition put_col :: "complex list list list \<Rightarrow> real list list \<Rightarrow> nat \<Rightarrow> real list list" where
  "put_col F T zi = map2 (\<lambda>r v. r[zi := v]) T (thresh_col F zi)"

subsection \<open>float64 rounding and the transverse grid\<close>

text \<open>
  A float64 operation returns the exact result rounded to the nearest number with a 53 bit
  significand, a tie going to the even significand. \<open>rne\<close> rounds a real to the nearest
  integer that way; \<open>fl\<close> scales by the exponent of its argument and rounds the significand.
  The exponent is unbounded here: overflow and subnormal numbers are not modelled, so \<open>fl\<close> is
  float64 rounding on the normal range (magnitudes from \<^verbatim>\<open>2**-1022\<close> up to \<^verbatim>\<open>2**1024\<close>).
\<close>

definition rne :: "real \<Rightarrow> int" where
  "rne y =
     (let f = \<lfloor>y\<rfloor> in
      if y - of_int f < 1 / 2 then f
      else if 1 / 2 < y - of_int f then f + 1
      else if even f then f else f + 1)"

definition fl :: "real \<Rightarrow> real" where
  "fl x =
     (if x = 0 then 0
      else let e = \<lfloor>log 2 \<bar>x\<bar>\<rfloor> - 52
           in of_int (rne (x / 2 powr of_int e)) * 2 powr of_int e)"

text \<open>
  \<^verbatim>\<open>np.linspace(start, stop, num)\<close> on float64 scalars, operation by operation:
  \<^verbatim>\<open>delta = stop - start\<close>, \<^verbatim>\<open>y = arange(0, num)\<close>; with \<^verbatim>\<open>div = num - 1 > 0\<close>,
  \<^verbatim>\<open>step = delta / div\<close> and \<^verbatim>\<open>y = y * step\<close> (when \<^verbatim>\<open>step == 0\<close>: \<^verbatim>\<open>y = y / div\<close>, then
  \<^verbatim>\<open>y = y * delta\<close>), otherwise \<^verbatim>\<open>y = y * delta\<close>; then \<^verbatim>\<open>y += start\<close>, and for \<^verbatim>\<open>num > 1\<close>
  the last sample is overwritten by \<^verbatim>\<open>stop\<close>. Every operation rounds its result.
\<close>

definition linspace64 :: "real \<Rightarrow> real \<Rightarrow> nat \<Rightarrow> real list" where
  "linspace64 start stop num =
     (let delta = fl (stop - start);
          step = fl (delta / real (num - 1));
          ys = (if 0 < num - 1 then
                  (if step = 0
                   then map (\<lambda>i. fl (fl (fl (real i / real (num - 1)) * delta) + start)) [0..<num]
                   else map (\<lambda>i. fl (fl (real i * step) + start)) [0..<num])
                else map (\<lambda>i. fl (fl (real i * delta) + start)) [0..<num])
      in if 1 < num then butlast ys @ [stop] else ys)"

text \<open>Lines 61 and 68 in float64: \<^verbatim>\<open>res = 1*um\<close>, \<^verbatim>\<open>x = np.linspace(-res*n_pts/2, res*n_pts/2, n_pts)\<close>.\<close>

definition res64 :: "real \<Rightarrow> real" where "res64 u = fl (1 * u)"

definition x_grid64 :: "real \<Rightarrow> real list" where
  "x_grid64 u =
     linspace64 (fl (fl (- res64 u * real n_pts) / 2)) (fl (fl (res64 u * real n_pts) / 2)) n_pts"

text \<open>The float64 number nearest to \<open>10\<^sup>-\<^sup>6\<close>, the value of the literal \<^verbatim>\<open>1e-6\<close>.\<close>

definition um_1e6 :: real where
  "um_1e6 = 4722366482869645 / 2 ^ 72"

section \<open>Properties\<close>

subsection \<open>Grids\<close>

lemma length_linspace: "length (linspace a b n) = n"
  by (cases "1 < n") (auto simp: linspace_def Let_def)

lemma linspace_nth:
  assumes "i < n"
  shows "linspace a b n ! i = a + real i * ((b - a) / real (n - 1))"
proof (cases "Suc i = n")
  case True
  show ?thesis
  proof (cases "1 < n")
    case gt: True
    have "linspace a b n ! i = b"
      using True gt by (auto simp: linspace_def Let_def nth_append)
    moreover have "a + real i * ((b - a) / real (n - 1)) = b"
    proof -
      from True gt have "real (n - 1) = real i" "real i \<noteq> 0" by auto
      then show ?thesis by simp
    qed
    ultimately show ?thesis by simp
  next
    case False
    with True have "n = 1" "i = 0" by auto
    then show ?thesis by (simp add: linspace_def)
  qed
next
  case False
  with assms have lt: "i < n - 1" and gt: "1 < n" by auto
  then show ?thesis
    using assms by (simp add: linspace_def Let_def nth_append nth_butlast)
qed

lemma mid_val: "mid = 256"
  by (simp add: mid_def n_pts_def)

lemma len_x: "length (x_grid u) = n_pts"
  by (simp add: x_grid_def length_linspace)

lemma len_y: "length (y_grid u) = n_pts"
  by (simp add: y_grid_def length_linspace)

lemma x_nth: "i < 512 \<Longrightarrow> x_grid u ! i = u * (real i * 512 / 511 - 256)"
  by (simp add: x_grid_def linspace_nth n_pts_def res_def field_simps)

lemma x_antisym:
  assumes i: "i < 512"
  shows "x_grid u ! i = - x_grid u ! (511 - i)"
proof -
  have "511 - i < 512" by simp
  then have b: "x_grid u ! (511 - i) = u * (real (511 - i) * 512 / 511 - 256)" by (rule x_nth)
  have r: "real (511 - i) = 511 - real i" using i by (simp add: of_nat_diff)
  have a: "x_grid u ! i = u * (real i * 512 / 511 - 256)" using i by (rule x_nth)
  show ?thesis unfolding a b r by (simp add: field_simps)
qed

lemma x_nonzero:
  assumes "u \<noteq> 0" "i < 512"
  shows "x_grid u ! i \<noteq> 0"
proof
  assume "x_grid u ! i = 0"
  with x_nth[OF assms(2)] assms(1) have "real i * 512 / 511 - 256 = 0" by simp
  then have "real i * 2 = 511" by (simp add: field_simps)
  then have "real (i * 2) = real 511" by simp
  then have "i * 2 = 511" by (simp only: of_nat_eq_iff)
  then show False by presburger
qed

lemma x_step:
  assumes "Suc i < n_pts"
  shows "x_grid u ! Suc i - x_grid u ! i = res u * real n_pts / real (n_pts - 1)"
proof -
  from assms have i: "i < 512" "Suc i < 512" by (simp_all add: n_pts_def)
  show ?thesis unfolding x_nth[OF i(1)] x_nth[OF i(2)]
    by (simp add: n_pts_def res_def algebra_simps)
qed

lemma x_mid: "x_grid u ! mid = res u * real n_pts / (2 * real (n_pts - 1))"
proof -
  have "x_grid u ! 256 = u * (real 256 * 512 / 511 - 256)" by (rule x_nth) simp
  then show ?thesis by (simp add: mid_val n_pts_def res_def)
qed

text \<open>
  The transverse grid in exact arithmetic, the rounding of float64 set aside: the spacing is
  \<open>res * n_pts / (n_pts - 1)\<close>, which is 512/511 of \<open>res\<close> and not \<open>res\<close>; the grid is
  antisymmetric, contains no zero, and the index \<open>mid = 256\<close> sits at
  \<open>res * n_pts / (2 * (n_pts - 1)) > 0\<close>, half a grid step off the axis. The unit \<open>u\<close> (the
  library's \<^verbatim>\<open>um\<close>) is positive. The samples numpy stores are these values rounded, so the
  equalities are statements about the exact values.
\<close>

theorem grid_spacing:
  assumes "0 < u"
  shows "length (x_grid u) = n_pts
    \<and> (\<forall>i. Suc i < n_pts \<longrightarrow>
          x_grid u ! Suc i - x_grid u ! i = res u * real n_pts / real (n_pts - 1))
    \<and> res u * real n_pts / real (n_pts - 1) = 512 / 511 * u
    \<and> res u * real n_pts / real (n_pts - 1) \<noteq> res u
    \<and> (\<forall>i < n_pts. x_grid u ! i = - x_grid u ! (n_pts - 1 - i))
    \<and> 0 \<notin> set (x_grid u)
    \<and> mid = 256
    \<and> x_grid u ! mid = res u * real n_pts / (2 * real (n_pts - 1))
    \<and> 0 < x_grid u ! mid"
proof -
  have v: "res u * real n_pts / real (n_pts - 1) = 512 / 511 * u"
    by (simp add: n_pts_def res_def)
  have ne: "res u * real n_pts / real (n_pts - 1) \<noteq> res u"
    using assms by (simp add: n_pts_def res_def)
  have anti: "\<forall>i < n_pts. x_grid u ! i = - x_grid u ! (n_pts - 1 - i)"
  proof (intro allI impI)
    fix i assume "i < n_pts"
    then have "i < 512" by (simp add: n_pts_def)
    then have "x_grid u ! i = - x_grid u ! (511 - i)" by (rule x_antisym)
    then show "x_grid u ! i = - x_grid u ! (n_pts - 1 - i)" by (simp add: n_pts_def)
  qed
  have nz: "0 \<notin> set (x_grid u)"
  proof
    assume "0 \<in> set (x_grid u)"
    then obtain i where "i < length (x_grid u)" "x_grid u ! i = 0"
      by (auto simp: in_set_conv_nth)
    with len_x x_nonzero[of u i] assms show False by (simp add: n_pts_def)
  qed
  have pos: "0 < x_grid u ! mid" using assms unfolding x_mid by (simp add: n_pts_def res_def)
  from len_x x_step v ne anti nz mid_val x_mid pos show ?thesis by blast
qed

theorem grid_spacing_witness:
  "0 < (1 / 1000000 :: real)
   \<and> x_grid (1 / 1000000) ! Suc 0 - x_grid (1 / 1000000) ! 0 = 512 / 511 * (1 / 1000000)
   \<and> x_grid (1 / 1000000) ! 0 = - x_grid (1 / 1000000) ! 511
   \<and> x_grid (1 / 1000000) ! 256 = 256 / 511000000"
proof -
  have h: "0 < (1 / 1000000 :: real)" by simp
  note g = grid_spacing[OF h]
  from g have "Suc 0 < n_pts \<longrightarrow> x_grid (1 / 1000000) ! Suc 0 - x_grid (1 / 1000000) ! 0
      = res (1 / 1000000) * real n_pts / real (n_pts - 1)" by blast
  then have a: "x_grid (1 / 1000000) ! Suc 0 - x_grid (1 / 1000000) ! 0 = 512 / 511 * (1 / 1000000)"
    by (simp add: n_pts_def res_def)
  from g have "0 < n_pts \<longrightarrow> x_grid (1 / 1000000) ! 0 = - x_grid (1 / 1000000) ! (n_pts - 1 - 0)"
    by blast
  then have b: "x_grid (1 / 1000000) ! 0 = - x_grid (1 / 1000000) ! 511"
    by (simp add: n_pts_def)
  from g have "mid = 256" and "x_grid (1 / 1000000) ! mid
      = res (1 / 1000000) * real n_pts / (2 * real (n_pts - 1))" by blast+
  then have c: "x_grid (1 / 1000000) ! 256 = 256 / 511000000"
    by (simp add: n_pts_def res_def)
  from h a b c show ?thesis by blast
qed

subsection \<open>The analytic waist\<close>

lemma w_analytical_nth:
  "i < length z \<Longrightarrow>
   w_analytical w lam z ! i =
     w * sqrt (1 + ((z ! i - 3 * rayleigh w lam) / rayleigh w lam) ^ 2)"
  by (simp add: w_analytical_def Let_def zf_def)

lemma rayleigh_pos: "0 < w \<Longrightarrow> 0 < lam \<Longrightarrow> 0 < rayleigh w lam"
  by (simp add: rayleigh_def)

lemma sq_less_of_neg:
  assumes "(a::real) < b" "b \<le> 0"
  shows "b ^ 2 < a ^ 2"
proof -
  from assms have "a - b < 0" "a + b < 0" by simp_all
  then have "0 < (a - b) * (a + b)" by (rule mult_neg_neg)
  then show ?thesis by (simp add: algebra_simps power2_eq_square)
qed

lemma sq_less_of_pos:
  assumes "(a::real) < b" "0 \<le> a"
  shows "a ^ 2 < b ^ 2"
  using assms by (simp add: power_strict_mono)

text \<open>
  C3. For a positive waist \<open>w\<close> and wavelength \<open>lam\<close> (the script's are 30 and 0.8 of the
  unit), the curve of lines 190 to 194 is \<open>w * sqrt (1 + ((z - 3 zR) / zR)\<^sup>2)\<close> with
  \<open>zR = pi * w\<^sup>2 / lam\<close> at every sample of the grid \<open>z\<close>; it is at least \<open>w\<close>, equal to
  \<open>w\<close> exactly at \<open>z = 3 zR\<close>, strictly decreasing between samples up to \<open>3 zR\<close> and
  strictly increasing between samples from \<open>3 zR\<close> on.
\<close>

theorem analytic_waist:
  assumes "0 < w" "0 < lam"
  shows "length (w_analytical w lam z) = length z
    \<and> rayleigh w lam = pi * w ^ 2 / lam
    \<and> (\<forall>i < length z.
          w_analytical w lam z ! i =
            w * sqrt (1 + ((z ! i - 3 * rayleigh w lam) / rayleigh w lam) ^ 2)
        \<and> w \<le> w_analytical w lam z ! i
        \<and> (w_analytical w lam z ! i = w \<longleftrightarrow> z ! i = 3 * rayleigh w lam))
    \<and> (\<forall>i < length z. \<forall>j < length z.
          z ! i < z ! j \<and> z ! j \<le> 3 * rayleigh w lam \<longrightarrow>
            w_analytical w lam z ! j < w_analytical w lam z ! i)
    \<and> (\<forall>i < length z. \<forall>j < length z.
          3 * rayleigh w lam \<le> z ! i \<and> z ! i < z ! j \<longrightarrow>
            w_analytical w lam z ! i < w_analytical w lam z ! j)"
proof -
  define zR where "zR = rayleigh w lam"
  define g where "g = (\<lambda>v. w * sqrt (1 + ((v - 3 * zR) / zR) ^ 2))"
  have zR: "0 < zR" unfolding zR_def using assms by (rule rayleigh_pos)
  have nth: "\<And>i. i < length z \<Longrightarrow> w_analytical w lam z ! i = g (z ! i)"
    by (simp add: w_analytical_nth g_def zR_def)
  have len: "length (w_analytical w lam z) = length z"
    by (simp add: w_analytical_def Let_def)
  have ray: "rayleigh w lam = pi * w ^ 2 / lam" by (simp add: rayleigh_def)
  have ge: "w \<le> g v" for v
  proof -
    have "1 \<le> sqrt (1 + ((v - 3 * zR) / zR) ^ 2)" by simp
    with assms(1) have "w * 1 \<le> w * sqrt (1 + ((v - 3 * zR) / zR) ^ 2)"
      by (intro mult_left_mono) simp_all
    then show ?thesis by (simp add: g_def)
  qed
  have eq: "g v = w \<longleftrightarrow> v = 3 * zR" for v
  proof -
    have "g v = w \<longleftrightarrow> sqrt (1 + ((v - 3 * zR) / zR) ^ 2) = 1"
      using assms(1) by (simp add: g_def)
    also have "\<dots> \<longleftrightarrow> ((v - 3 * zR) / zR) ^ 2 = 0" by simp
    also have "\<dots> \<longleftrightarrow> v = 3 * zR" using zR by simp
    finally show ?thesis .
  qed
  have dec: "g b < g a" if "a < b" "b \<le> 3 * zR" for a b
  proof -
    from that zR have "(a - 3 * zR) / zR < (b - 3 * zR) / zR" "(b - 3 * zR) / zR \<le> 0"
      by (simp_all add: divide_strict_right_mono divide_le_0_iff)
    then have "((b - 3 * zR) / zR) ^ 2 < ((a - 3 * zR) / zR) ^ 2" by (rule sq_less_of_neg)
    then have "sqrt (1 + ((b - 3 * zR) / zR) ^ 2) < sqrt (1 + ((a - 3 * zR) / zR) ^ 2)" by simp
    with assms(1) show ?thesis by (simp add: g_def)
  qed
  have inc: "g a < g b" if "3 * zR \<le> a" "a < b" for a b
  proof -
    from that zR have "(a - 3 * zR) / zR < (b - 3 * zR) / zR" "0 \<le> (a - 3 * zR) / zR"
      by (simp_all add: divide_strict_right_mono)
    then have "((a - 3 * zR) / zR) ^ 2 < ((b - 3 * zR) / zR) ^ 2" by (rule sq_less_of_pos)
    then have "sqrt (1 + ((a - 3 * zR) / zR) ^ 2) < sqrt (1 + ((b - 3 * zR) / zR) ^ 2)" by simp
    with assms(1) show ?thesis by (simp add: g_def)
  qed
  have p1: "\<forall>i < length z.
          w_analytical w lam z ! i =
            w * sqrt (1 + ((z ! i - 3 * rayleigh w lam) / rayleigh w lam) ^ 2)
        \<and> w \<le> w_analytical w lam z ! i
        \<and> (w_analytical w lam z ! i = w \<longleftrightarrow> z ! i = 3 * rayleigh w lam)"
  proof (intro allI impI)
    fix i assume i: "i < length z"
    show "w_analytical w lam z ! i =
            w * sqrt (1 + ((z ! i - 3 * rayleigh w lam) / rayleigh w lam) ^ 2)
        \<and> w \<le> w_analytical w lam z ! i
        \<and> (w_analytical w lam z ! i = w \<longleftrightarrow> z ! i = 3 * rayleigh w lam)"
      unfolding nth[OF i] using ge[of "z ! i"] eq[of "z ! i"] by (simp add: g_def zR_def)
  qed
  have p2: "\<forall>i < length z. \<forall>j < length z.
          z ! i < z ! j \<and> z ! j \<le> 3 * rayleigh w lam \<longrightarrow>
            w_analytical w lam z ! j < w_analytical w lam z ! i"
  proof (intro allI impI)
    fix i j assume i: "i < length z" and j: "j < length z"
      and h: "z ! i < z ! j \<and> z ! j \<le> 3 * rayleigh w lam"
    then have "g (z ! j) < g (z ! i)" by (intro dec) (simp_all add: zR_def)
    then show "w_analytical w lam z ! j < w_analytical w lam z ! i"
      by (simp only: nth[OF i] nth[OF j])
  qed
  have p3: "\<forall>i < length z. \<forall>j < length z.
          3 * rayleigh w lam \<le> z ! i \<and> z ! i < z ! j \<longrightarrow>
            w_analytical w lam z ! i < w_analytical w lam z ! j"
  proof (intro allI impI)
    fix i j assume i: "i < length z" and j: "j < length z"
      and h: "3 * rayleigh w lam \<le> z ! i \<and> z ! i < z ! j"
    then have "g (z ! i) < g (z ! j)" by (intro inc) (simp_all add: zR_def)
    then show "w_analytical w lam z ! i < w_analytical w lam z ! j"
      by (simp only: nth[OF i] nth[OF j])
  qed
  from len ray p1 p2 p3 show ?thesis by blast
qed

theorem analytic_waist_witness:
  "0 < (3 / 100000 :: real) \<and> 0 < (8 / 10000000 :: real)
   \<and> [0, 1 / 1000 :: real] ! 0 < [0, 1 / 1000] ! 1
   \<and> [0, 1 / 1000] ! 1 \<le> 3 * rayleigh (3 / 100000) (8 / 10000000)
   \<and> w_analytical (3 / 100000) (8 / 10000000) [0, 1 / 1000] ! 1
       < w_analytical (3 / 100000) (8 / 10000000) [0, 1 / 1000] ! 0
   \<and> 3 / 100000 \<le> w_analytical (3 / 100000) (8 / 10000000) [0, 1 / 1000] ! 0"
proof -
  have h1: "0 < (3 / 100000 :: real)" and h2: "0 < (8 / 10000000 :: real)" by simp_all
  have h3: "[0, 1 / 1000 :: real] ! 0 < [0, 1 / 1000] ! 1" by simp
  have "1 / 1000 \<le> 3 * (2 * (3 / 100000) ^ 2 / (8 / 10000000 :: real))"
    by (simp add: power2_eq_square)
  also have "\<dots> \<le> 3 * (pi * (3 / 100000) ^ 2 / (8 / 10000000))"
    using pi_ge_two by (simp add: divide_le_cancel)
  finally have h4: "[0, 1 / 1000] ! 1 \<le> 3 * rayleigh (3 / 100000) (8 / 10000000)"
    by (simp add: rayleigh_def)
  note a = analytic_waist[OF h1 h2, of "[0, 1 / 1000]"]
  note mono = a[THEN conjunct2, THEN conjunct2, THEN conjunct2, THEN conjunct1, rule_format, of 0 1]
  note lower = a[THEN conjunct2, THEN conjunct2, THEN conjunct1, rule_format, of 0,
      THEN conjunct2, THEN conjunct1]
  have l0: "0 < length [0, 1 / 1000 :: real]" and l1: "1 < length [0, 1 / 1000 :: real]"
    by simp_all
  have c1: "w_analytical (3 / 100000) (8 / 10000000) [0, 1 / 1000] ! 1
       < w_analytical (3 / 100000) (8 / 10000000) [0, 1 / 1000] ! 0"
    by (rule mono[OF l0 l1 conjI[OF h3 h4]])
  have c2: "3 / 100000 \<le> w_analytical (3 / 100000) (8 / 10000000) [0, 1 / 1000] ! 0"
    by (rule lower[OF l0])
  show ?thesis
    by (intro conjI h1 h2 h3 h4 c1 c2)
qed


subsection \<open>The focal slice\<close>

lemma argmin_from_spec:
  "argmin_from i b v xs = r \<Longrightarrow> b < i \<Longrightarrow>
     (r = b \<and> (\<forall>x\<in>set xs. v \<le> x)) \<or>
     (i \<le> r \<and> r < i + length xs \<and> xs ! (r - i) < v \<and>
        (\<forall>j < r - i. xs ! (r - i) < xs ! j) \<and> (\<forall>j < length xs. xs ! (r - i) \<le> xs ! j))"
proof (induction i b v xs arbitrary: r rule: argmin_from.induct)
  case (1 i b v)
  then show ?case by simp
next
  case (2 i b v x xs)
  show ?case
  proof (cases "x < v")
    case True
    with 2 have r: "argmin_from (Suc i) i x xs = r" by simp
    from "2.IH"(1)[OF True r] have
      "(r = i \<and> (\<forall>y\<in>set xs. x \<le> y)) \<or>
       (Suc i \<le> r \<and> r < Suc i + length xs \<and> xs ! (r - Suc i) < x \<and>
        (\<forall>j < r - Suc i. xs ! (r - Suc i) < xs ! j) \<and> (\<forall>j < length xs. xs ! (r - Suc i) \<le> xs ! j))"
      by simp
    then show ?thesis
    proof
      assume a: "r = i \<and> (\<forall>y\<in>set xs. x \<le> y)"
      then have "\<forall>j < length (x # xs). (x # xs) ! 0 \<le> (x # xs) ! j"
        by (auto simp: nth_Cons split: nat.splits)
      with a True show ?thesis by simp
    next
      assume a: "Suc i \<le> r \<and> r < Suc i + length xs \<and> xs ! (r - Suc i) < x \<and>
        (\<forall>j < r - Suc i. xs ! (r - Suc i) < xs ! j) \<and> (\<forall>j < length xs. xs ! (r - Suc i) \<le> xs ! j)"
      then have "Suc i \<le> r" by blast
      then have ri: "r - i = Suc (r - Suc i)" by arith
      have "\<forall>j < r - i. (x # xs) ! (r - i) < (x # xs) ! j"
        using a ri by (auto simp: nth_Cons split: nat.splits)
      moreover have "\<forall>j < length (x # xs). (x # xs) ! (r - i) \<le> (x # xs) ! j"
        using a ri by (auto simp: nth_Cons split: nat.splits)
      moreover have "(x # xs) ! (r - i) < v" using a ri True by simp
      ultimately show ?thesis using a by auto
    qed
  next
    case False
    with 2 have r: "argmin_from (Suc i) b v xs = r" by simp
    from "2.prems" have "b < Suc i" by simp
    from "2.IH"(2)[OF False r this] have
      "(r = b \<and> (\<forall>y\<in>set xs. v \<le> y)) \<or>
       (Suc i \<le> r \<and> r < Suc i + length xs \<and> xs ! (r - Suc i) < v \<and>
        (\<forall>j < r - Suc i. xs ! (r - Suc i) < xs ! j) \<and> (\<forall>j < length xs. xs ! (r - Suc i) \<le> xs ! j))"
      by simp
    then show ?thesis
    proof
      assume a: "r = b \<and> (\<forall>y\<in>set xs. v \<le> y)"
      with False show ?thesis by auto
    next
      assume a: "Suc i \<le> r \<and> r < Suc i + length xs \<and> xs ! (r - Suc i) < v \<and>
        (\<forall>j < r - Suc i. xs ! (r - Suc i) < xs ! j) \<and> (\<forall>j < length xs. xs ! (r - Suc i) \<le> xs ! j)"
      then have "Suc i \<le> r" by blast
      then have ri: "r - i = Suc (r - Suc i)" by arith
      have "\<forall>j < r - i. (x # xs) ! (r - i) < (x # xs) ! j"
        using a ri False by (auto simp: nth_Cons split: nat.splits)
      moreover have "\<forall>j < length (x # xs). (x # xs) ! (r - i) \<le> (x # xs) ! j"
        using a ri False by (auto simp: nth_Cons split: nat.splits)
      moreover have "(x # xs) ! (r - i) < v" using a ri by simp
      ultimately show ?thesis using a by auto
    qed
  qed
qed

lemma argmin_first_min:
  assumes "argmin xs = Inr r"
  shows "r < length xs \<and> (\<forall>j < length xs. xs ! r \<le> xs ! j) \<and> (\<forall>j < r. xs ! r < xs ! j)"
proof (cases xs)
  case Nil
  with assms show ?thesis by (simp add: argmin_def)
next
  case (Cons x rest)
  with assms have r: "argmin_from 1 0 x rest = r" by (simp add: argmin_def)
  from argmin_from_spec[OF r] have
    "(r = 0 \<and> (\<forall>y\<in>set rest. x \<le> y)) \<or>
     (1 \<le> r \<and> r < 1 + length rest \<and> rest ! (r - 1) < x \<and>
        (\<forall>j < r - 1. rest ! (r - 1) < rest ! j) \<and> (\<forall>j < length rest. rest ! (r - 1) \<le> rest ! j))"
    by simp
  then show ?thesis
  proof
    assume "r = 0 \<and> (\<forall>y\<in>set rest. x \<le> y)"
    then show ?thesis using Cons by (auto simp: nth_Cons split: nat.splits)
  next
    assume a: "1 \<le> r \<and> r < 1 + length rest \<and> rest ! (r - 1) < x \<and>
        (\<forall>j < r - 1. rest ! (r - 1) < rest ! j) \<and> (\<forall>j < length rest. rest ! (r - 1) \<le> rest ! j)"
    then obtain r' where r': "r = Suc r'" by (cases r) auto
    with a Cons show ?thesis by (auto simp: nth_Cons split: nat.splits)
  qed
qed

lemma argmin_unique:
  assumes "i < length xs" "\<forall>j < length xs. xs ! i \<le> xs ! j" "\<forall>j < i. xs ! i < xs ! j"
  shows "argmin xs = Inr i"
proof -
  from assms(1) obtain x rest where "xs = x # rest" by (cases xs) auto
  then obtain r where r: "argmin xs = Inr r" by (simp add: argmin_def)
  from argmin_first_min[OF r] have
    p: "r < length xs" "\<forall>j < length xs. xs ! r \<le> xs ! j" "\<forall>j < r. xs ! r < xs ! j" by auto
  have "r = i"
  proof (rule ccontr)
    assume "r \<noteq> i"
    then consider "r < i" | "i < r" by linarith
    then show False
    proof cases
      case 1
      with assms(3) have "xs ! i < xs ! r" by simp
      moreover from p(2) assms(1) have "xs ! r \<le> xs ! i" by simp
      ultimately show False by simp
    next
      case 2
      with p(3) have "xs ! r < xs ! i" by simp
      moreover from assms(2) p(1) have "xs ! i \<le> xs ! r" by simp
      ultimately show False by simp
    qed
  qed
  with r show ?thesis by simp
qed

lemma length_z_grid: "length (z_grid zR) = 512"
  by (simp add: z_grid_def length_linspace nz_def)

lemma z_nth: "j < 512 \<Longrightarrow> z_grid zR ! j = real j * (6 * zR / 511)"
  by (simp add: z_grid_def linspace_nth nz_def zMax_def)

lemma z_dev: "j < 512 \<Longrightarrow> z_grid zR ! j - zf zR = (3 * zR / 511) * (2 * real j - 511)"
  by (simp add: z_nth zf_def field_simps)

lemma odd_sq_ge1: "1 \<le> (2 * real j - 511) ^ 2"
proof -
  have "2 * int j - 511 \<noteq> 0" by presburger
  then have "1 \<le> \<bar>2 * int j - 511\<bar>" by simp
  then have "1 \<le> \<bar>2 * int j - 511\<bar> ^ 2" by (metis one_le_power)
  then have "1 \<le> (2 * int j - 511) ^ 2" by simp
  then have "real_of_int 1 \<le> real_of_int ((2 * int j - 511) ^ 2)" by (simp only: of_int_le_iff)
  then show ?thesis by simp
qed

lemma odd_sq_gt1:
  assumes "j < 255"
  shows "1 < (2 * real j - 511) ^ 2"
proof -
  from assms have "2 * real j - 511 \<le> - 3" by simp
  then have "3 \<le> \<bar>2 * real j - 511\<bar>" by simp
  then have "3 ^ 2 \<le> \<bar>2 * real j - 511\<bar> ^ 2" by (rule power_mono) simp
  then show ?thesis by simp
qed

lemma focal_idx_val:
  assumes "0 < zR"
  shows "focal_idx (z_grid zR) (zf zR) = Inr 255"
proof -
  let ?d = "map (\<lambda>v. (v - zf zR) ^ 2) (z_grid zR)"
  have nth: "?d ! j = (3 * zR / 511) ^ 2 * (2 * real j - 511) ^ 2" if "j < 512" for j
  proof -
    have "?d ! j = (z_grid zR ! j - zf zR) ^ 2" using that by (simp add: length_z_grid)
    also have "\<dots> = ((3 * zR / 511) * (2 * real j - 511)) ^ 2" by (simp only: z_dev[OF that])
    also have "\<dots> = (3 * zR / 511) ^ 2 * (2 * real j - 511) ^ 2" by (rule power_mult_distrib)
    finally show ?thesis .
  qed
  have c: "0 \<le> (3 * zR / 511) ^ 2" by simp
  have c': "0 < (3 * zR / 511) ^ 2" using assms by simp
  have v255: "?d ! 255 = (3 * zR / 511) ^ 2 * 1"
    by (subst nth) simp_all
  have "argmin ?d = Inr 255"
  proof (rule argmin_unique)
    show "255 < length ?d" by (simp add: length_z_grid)
    show "\<forall>j<length ?d. ?d ! 255 \<le> ?d ! j"
    proof (intro allI impI)
      fix j assume "j < length ?d"
      then have j: "j < 512" by (simp add: length_z_grid)
      have "(3 * zR / 511) ^ 2 * 1 \<le> (3 * zR / 511) ^ 2 * (2 * real j - 511) ^ 2"
        using c odd_sq_ge1 by (rule mult_left_mono[rotated])
      then show "?d ! 255 \<le> ?d ! j" by (simp only: v255 nth[OF j])
    qed
    show "\<forall>j<255. ?d ! 255 < ?d ! j"
    proof (intro allI impI)
      fix j :: nat assume j: "j < 255"
      then have j': "j < 512" by simp
      have "(3 * zR / 511) ^ 2 * 1 < (3 * zR / 511) ^ 2 * (2 * real j - 511) ^ 2"
        using odd_sq_gt1[OF j] c' by (rule mult_strict_left_mono)
      then show "?d ! 255 < ?d ! j" by (simp only: v255 nth[OF j'])
    qed
  qed
  then show ?thesis by (simp add: focal_idx_def)
qed

lemma zf_not_on_grid:
  assumes "0 < zR"
  shows "zf zR \<notin> set (z_grid zR)"
proof
  assume "zf zR \<in> set (z_grid zR)"
  then obtain j where j: "j < 512" and e: "z_grid zR ! j = zf zR"
    by (auto simp: in_set_conv_nth length_z_grid)
  from e have "z_grid zR ! j - zf zR = 0" by simp
  then have "(3 * zR / 511) * (2 * real j - 511) = 0" by (simp only: z_dev[OF j])
  with assms have "2 * real j - 511 = 0" by simp
  with odd_sq_ge1[of j] show False by simp
qed

text \<open>
  The focal slice in exact arithmetic, for the grid \<open>z\<close> of line 71. Let the library's
  \<^verbatim>\<open>get_zr\<close> return the Rayleigh range \<open>zR = pi * w\<^sup>2 / lam\<close> that the script computes
  itself, for a positive waist and wavelength. Then the focal plane \<open>zf = 3 zR\<close> of line 192
  is no sample of \<open>z = linspace 0 (6 zR) 512\<close>; it is the midpoint of the samples 255 and 256;
  and the first index of a smallest \<open>(z - zf)\<^sup>2\<close> is 255, a sample at the distance
  \<open>3 zR / 511\<close> from the focus. The two candidates tie exactly, so which of them float64
  arithmetic selects is a matter of rounding.
\<close>

theorem focal_plane_off_grid:
  assumes "0 < w" "0 < lam" "zR = rayleigh w lam"
  shows "focal_idx (z_grid zR) (zf (rayleigh (w * 1.00) lam)) = Inr 255
    \<and> z_grid zR = linspace 0 (6 * zR) 512
    \<and> zf (rayleigh (w * 1.00) lam) = 3 * zR
    \<and> zf (rayleigh (w * 1.00) lam) \<notin> set (z_grid zR)
    \<and> zf (rayleigh (w * 1.00) lam) = (z_grid zR ! 255 + z_grid zR ! 256) / 2
    \<and> z_grid zR ! 255 < zf (rayleigh (w * 1.00) lam)
    \<and> zf (rayleigh (w * 1.00) lam) < z_grid zR ! 256
    \<and> \<bar>z_grid zR ! 255 - zf (rayleigh (w * 1.00) lam)\<bar> = 3 * zR / 511
    \<and> \<bar>z_grid zR ! 256 - zf (rayleigh (w * 1.00) lam)\<bar> = 3 * zR / 511"
proof -
  have zR: "0 < zR" using assms by (simp add: rayleigh_def)
  have e: "rayleigh (w * 1.00) lam = zR" using assms(3) by simp
  have g: "z_grid zR = linspace 0 (6 * zR) 512" by (simp add: z_grid_def zMax_def nz_def)
  have a: "z_grid zR ! 255 - zf zR = (3 * zR / 511) * (2 * real 255 - 511)"
    by (rule z_dev) simp
  have b: "z_grid zR ! 256 - zf zR = (3 * zR / 511) * (2 * real 256 - 511)"
    by (rule z_dev) simp
  from a have a': "z_grid zR ! 255 = zf zR - 3 * zR / 511" by simp
  from b have b': "z_grid zR ! 256 = zf zR + 3 * zR / 511" by simp
  have f: "zf zR = 3 * zR" by (simp add: zf_def)
  have m: "zf zR = (z_grid zR ! 255 + z_grid zR ! 256) / 2" by (simp add: a' b')
  have l: "z_grid zR ! 255 < zf zR" "zf zR < z_grid zR ! 256" using zR by (simp_all add: a' b')
  have d: "\<bar>z_grid zR ! 255 - zf zR\<bar> = 3 * zR / 511" "\<bar>z_grid zR ! 256 - zf zR\<bar> = 3 * zR / 511"
    using zR by (simp_all add: a' b')
  show ?thesis unfolding e
    using focal_idx_val[OF zR] zf_not_on_grid[OF zR] g f m l d by blast
qed

theorem focal_plane_off_grid_witness:
  "0 < (1 :: real) \<and> 0 < pi \<and> pi = rayleigh 1 1
   \<and> focal_idx (z_grid pi) (zf (rayleigh (1 * 1.00) 1)) = Inr 255
   \<and> \<bar>z_grid pi ! 255 - zf (rayleigh (1 * 1.00) 1)\<bar> = 3 * pi / 511"
proof -
  have h: "0 < (1 :: real)" by simp
  have r: "pi = rayleigh 1 1" by (simp add: rayleigh_def)
  note f = focal_plane_off_grid[OF h h r]
  show ?thesis
    by (intro conjI h r pi_gt_zero f[THEN conjunct1]
        f[THEN conjunct2, THEN conjunct2, THEN conjunct2, THEN conjunct2, THEN conjunct2,
          THEN conjunct2, THEN conjunct2, THEN conjunct1])
qed

subsection \<open>The input beam\<close>

lemma y_eq_x: "y_grid u = x_grid u"
  by (simp add: y_grid_def x_grid_def)

lemma X_nth: "i < n_pts \<Longrightarrow> j < n_pts \<Longrightarrow> X_grid u ! i ! j = x_grid u ! j"
  by (simp add: X_grid_def meshgrid_def len_y)

lemma Y_nth: "i < n_pts \<Longrightarrow> j < n_pts \<Longrightarrow> Y_grid u ! i ! j = y_grid u ! i"
  by (simp add: Y_grid_def meshgrid_def len_y len_x)

lemma on_grid_nth: "on_grid A \<Longrightarrow> i < n_pts \<Longrightarrow> length (A ! i) = n_pts"
  by (simp add: on_grid_def list_all_length)

lemma on_grid_X: "on_grid (X_grid u)"
  by (simp add: on_grid_def X_grid_def meshgrid_def len_y len_x list_all_iff)

lemma on_grid_Y: "on_grid (Y_grid u)"
  by (simp add: on_grid_def Y_grid_def meshgrid_def len_y len_x list_all_iff)

lemma on_grid_inputPhase: "on_grid (inputPhase k R g (X_grid u) (Y_grid u))"
  using on_grid_X[of u] on_grid_Y[of u]
  by (auto simp: on_grid_def inputPhase_def R_sq_def list_all_length)

lemma inputPhase_nth:
  "i < n_pts \<Longrightarrow> j < n_pts \<Longrightarrow>
   inputPhase k R g (X_grid u) (Y_grid u) ! i ! j
     = k * ((X_grid u ! i ! j) ^ 2 + (Y_grid u ! i ! j) ^ 2) / (2 * R) - g"
  using on_grid_X[of u] on_grid_Y[of u]
  by (simp add: inputPhase_def R_sq_def on_grid_def list_all_length)

lemma shape2_on_grid: "on_grid A \<Longrightarrow> shape2 A = (n_pts, n_pts)"
  by (cases A) (auto simp: shape2_def on_grid_def n_pts_def)

lemma stretch_on_grid: "on_grid A \<Longrightarrow> stretch n_pts (map (stretch n_pts) A) = A"
proof -
  assume a: "on_grid A"
  then have "map (stretch n_pts) A = A"
    by (intro map_idI) (simp add: on_grid_def list_all_iff stretch_def)
  with a show ?thesis by (simp add: stretch_def on_grid_def)
qed

lemma broadcast2_on_grid:
  assumes "on_grid A" "on_grid B"
  shows "broadcast2 f A B = Inr (map2 (map2 f) A B)"
  using assms
  by (simp add: broadcast2_def shape2_on_grid bc_dim_def stretch_on_grid)

lemma map2_map2_nth:
  assumes "on_grid A" "on_grid B" "i < n_pts" "j < n_pts"
  shows "map2 (map2 f) A B ! i ! j = f (A ! i ! j) (B ! i ! j)"
  using assms by (simp add: on_grid_def list_all_length)

lemma on_grid_map2: "on_grid A \<Longrightarrow> on_grid B \<Longrightarrow> on_grid (map2 (map2 f) A B)"
  by (auto simp: on_grid_def list_all_length)

lemma initial_field_on_grid:
  assumes "u \<noteq> 0" "on_grid amp"
  shows "initial_field u t zR amp =
     Inr (map2 (map2 (\<lambda>a p. complex_of_real a * exp (- \<i> * complex_of_real p))) amp
            (inputPhase (k0 (0.800 * u)) (Rz zR) (guoy (z0 zR) (rayleigh (30.0 * u) (0.800 * u)))
               (X_grid u) (Y_grid u)))"
proof -
  have "rayleigh (30.0 * u) (0.800 * u) \<noteq> 0" using assms(1) by (simp add: rayleigh_def)
  then show ?thesis
    using assms
    by (simp add: initial_field_def laserParameters_def Let_def apply_phase_def
        broadcast2_on_grid[OF assms(2) on_grid_inputPhase])
qed

lemma Rz_val: "zR \<noteq> 0 \<Longrightarrow> Rz zR = - (10 / 3) * zR"
  by (simp add: Rz_def z0_def zf_def power2_eq_square field_simps)

lemma cmod_phase_factor: "cmod (complex_of_real a * exp (- \<i> * complex_of_real p)) = \<bar>a\<bar>"
  by (simp add: norm_mult norm_exp_eq_Re)

lemma gouy_global_phase:
  "complex_of_real a * exp (- \<i> * complex_of_real (q - g))
     = exp (\<i> * complex_of_real g) * (complex_of_real a * exp (- \<i> * complex_of_real q))"
  by (simp add: exp_add[symmetric] algebra_simps)

text \<open>
  C1. For a positive unit and a positive \<open>zR\<close> returned by \<^verbatim>\<open>get_zr\<close>, and an amplitude
  \<open>amp\<close> on the grid returned by \<^verbatim>\<open>make_inputBeam\<close>, the complex field of line 91 is, pixel by
  pixel, \<open>amp * exp (- \<i> * (k * (X\<^sup>2 + Y\<^sup>2) / (2 * Rz) - guoy))\<close> with \<open>k = 2 pi / lambda0\<close>,
  \<open>guoy = arctan (z0 / zR')\<close> where \<open>zR'\<close> is the Rayleigh range of line 83 (it is \<open>zR\<close> when
  \<^verbatim>\<open>get_zr\<close> returns that range), \<open>z0 = - 3 zR\<close> and \<open>Rz = z0 * (1 + (zR / z0)\<^sup>2)\<close>; \<open>Rz\<close> is
  negative, and so is the coefficient \<open>k / (2 * Rz)\<close> of the quadratic phase.
\<close>

theorem initial_field_profile:
  assumes "0 < u" "0 < zR" "on_grid amp"
  shows "(\<exists>fld. initial_field u t zR amp = Inr fld \<and> on_grid fld
       \<and> (\<forall>i < n_pts. \<forall>j < n_pts.
            fld ! i ! j =
              complex_of_real (amp ! i ! j) *
              exp (- \<i> * complex_of_real
                (k0 (lp_lambda0 (laserParameters u t))
                   * ((X_grid u ! i ! j) ^ 2 + (Y_grid u ! i ! j) ^ 2) / (2 * Rz zR)
                 - guoy (z0 zR)
                     (rayleigh (lp_w0 (laserParameters u t)) (lp_lambda0 (laserParameters u t)))))))
    \<and> (\<forall>i < n_pts. \<forall>j < n_pts.
          X_grid u ! i ! j = x_grid u ! j \<and> Y_grid u ! i ! j = y_grid u ! i)
    \<and> k0 (lp_lambda0 (laserParameters u t)) = 2 * pi / lp_lambda0 (laserParameters u t)
    \<and> guoy (z0 zR) (rayleigh (lp_w0 (laserParameters u t)) (lp_lambda0 (laserParameters u t)))
        = arctan (z0 zR
            / (pi * (lp_w0 (laserParameters u t)) ^ 2 / lp_lambda0 (laserParameters u t)))
    \<and> (zR = rayleigh (lp_w0 (laserParameters u t)) (lp_lambda0 (laserParameters u t)) \<longrightarrow>
         guoy (z0 zR) (rayleigh (lp_w0 (laserParameters u t)) (lp_lambda0 (laserParameters u t)))
           = arctan (z0 zR / zR))
    \<and> z0 zR = - 3 * zR
    \<and> Rz zR = z0 zR * (1 + (zR / z0 zR) ^ 2)
    \<and> Rz zR < 0
    \<and> k0 (lp_lambda0 (laserParameters u t)) / (2 * Rz zR) < 0"
proof -
  let ?lam = "lp_lambda0 (laserParameters u t)"
  let ?w = "lp_w0 (laserParameters u t)"
  let ?ph = "inputPhase (k0 (0.800 * u)) (Rz zR) (guoy (z0 zR) (rayleigh (30.0 * u) (0.800 * u)))
               (X_grid u) (Y_grid u)"
  let ?f = "\<lambda>a p. complex_of_real a * exp (- \<i> * complex_of_real p)"
  have lam: "?lam = 0.800 * u" and w: "?w = 30.0 * u" by (simp_all add: laserParameters_def)
  have u0: "u \<noteq> 0" using assms(1) by simp
  have ph: "on_grid ?ph" by (rule on_grid_inputPhase)
  have f: "initial_field u t zR amp = Inr (map2 (map2 ?f) amp ?ph)"
    using u0 assms(3) by (rule initial_field_on_grid)
  have g: "on_grid (map2 (map2 ?f) amp ?ph)" using assms(3) ph by (rule on_grid_map2)
  have px: "\<forall>i < n_pts. \<forall>j < n_pts.
      map2 (map2 ?f) amp ?ph ! i ! j =
        complex_of_real (amp ! i ! j) *
          exp (- \<i> * complex_of_real
            (k0 ?lam * ((X_grid u ! i ! j) ^ 2 + (Y_grid u ! i ! j) ^ 2) / (2 * Rz zR)
               - guoy (z0 zR) (rayleigh ?w ?lam)))"
  proof (intro allI impI)
    fix i j assume i: "i < n_pts" and j: "j < n_pts"
    have "map2 (map2 ?f) amp ?ph ! i ! j = ?f (amp ! i ! j) (?ph ! i ! j)"
      using assms(3) ph i j by (rule map2_map2_nth)
    then show "map2 (map2 ?f) amp ?ph ! i ! j =
        complex_of_real (amp ! i ! j) *
          exp (- \<i> * complex_of_real
            (k0 ?lam * ((X_grid u ! i ! j) ^ 2 + (Y_grid u ! i ! j) ^ 2) / (2 * Rz zR)
               - guoy (z0 zR) (rayleigh ?w ?lam)))"
      by (simp only: inputPhase_nth[OF i j] lam w)
  qed
  have p1: "\<exists>fld. initial_field u t zR amp = Inr fld \<and> on_grid fld
       \<and> (\<forall>i < n_pts. \<forall>j < n_pts.
            fld ! i ! j =
              complex_of_real (amp ! i ! j) *
              exp (- \<i> * complex_of_real
                (k0 ?lam * ((X_grid u ! i ! j) ^ 2 + (Y_grid u ! i ! j) ^ 2) / (2 * Rz zR)
                 - guoy (z0 zR) (rayleigh ?w ?lam))))"
    using f g px by (intro exI conjI)
  have p2: "\<forall>i < n_pts. \<forall>j < n_pts.
          X_grid u ! i ! j = x_grid u ! j \<and> Y_grid u ! i ! j = y_grid u ! i"
    by (simp add: X_nth Y_nth)
  have p3: "k0 ?lam = 2 * pi / ?lam" by (simp add: k0_def)
  have p4: "guoy (z0 zR) (rayleigh ?w ?lam) = arctan (z0 zR / (pi * ?w ^ 2 / ?lam))"
    by (simp add: guoy_def rayleigh_def)
  have p5: "zR = rayleigh ?w ?lam \<longrightarrow> guoy (z0 zR) (rayleigh ?w ?lam) = arctan (z0 zR / zR)"
    by (simp add: guoy_def)
  have p6: "z0 zR = - 3 * zR" by (simp add: z0_def zf_def)
  have p7: "Rz zR = z0 zR * (1 + (zR / z0 zR) ^ 2)" by (simp add: Rz_def)
  have p8: "Rz zR < 0" using assms(2) by (simp add: Rz_val)
  have "0 < k0 ?lam" using assms(1) by (simp add: k0_def lam)
  with p8 have p9: "k0 ?lam / (2 * Rz zR) < 0" by (simp add: divide_pos_neg)
  show ?thesis
    by (intro conjI p1 p2 p3 p4 p5 p6 p7 p8 p9)
qed

lemma on_grid_replicate: "on_grid (replicate n_pts (replicate n_pts a))"
  by (simp add: on_grid_def list_all_iff)

theorem initial_field_profile_witness:
  "0 < (1 :: real) \<and> on_grid (replicate n_pts (replicate n_pts (1 :: real)))
   \<and> (\<exists>fld. initial_field 1 1 1 (replicate n_pts (replicate n_pts 1)) = Inr fld \<and> on_grid fld)
   \<and> Rz 1 = - 3 * (1 + (1 / - 3) ^ 2) \<and> Rz 1 < 0"
proof -
  have h: "0 < (1 :: real)" by simp
  have g: "on_grid (replicate n_pts (replicate n_pts (1 :: real)))" by (rule on_grid_replicate)
  note p = initial_field_profile[OF h h g, of 1]
  from p[THEN conjunct1] have a:
    "\<exists>fld. initial_field 1 1 1 (replicate n_pts (replicate n_pts 1)) = Inr fld \<and> on_grid fld"
    by (elim exE conjE) (intro exI conjI)
  note z = p[THEN conjunct2, THEN conjunct2, THEN conjunct2, THEN conjunct2, THEN conjunct2,
             THEN conjunct1]
  note r = p[THEN conjunct2, THEN conjunct2, THEN conjunct2, THEN conjunct2, THEN conjunct2,
             THEN conjunct2, THEN conjunct1]
  note n = p[THEN conjunct2, THEN conjunct2, THEN conjunct2, THEN conjunct2, THEN conjunct2,
             THEN conjunct2, THEN conjunct2, THEN conjunct1]
  from r z have b: "Rz 1 = - 3 * (1 + (1 / - 3) ^ 2)" by simp
  show ?thesis by (intro conjI h g a b n)
qed

text \<open>
  The phase factor in exact arithmetic: for an amplitude on the grid and any phase array on
  the grid, every pixel of \<^verbatim>\<open>inputBeam * np.exp(-1j * inputPhase)\<close> has the modulus of the
  amplitude there. For the phase of the script, the Gouy term is a factor \<open>exp (\<i> * guoy)\<close>
  common to all pixels, and the intensity is the squared amplitude. In complex128 the
  computed factor has a modulus within rounding of 1, not exactly 1.
\<close>

theorem phase_keeps_modulus:
  assumes "u \<noteq> 0" "on_grid amp"
  shows "(\<forall>ph. on_grid ph \<longrightarrow>
          (\<exists>fld. apply_phase amp ph = Inr fld
             \<and> (\<forall>i < n_pts. \<forall>j < n_pts.
                   fld ! i ! j = complex_of_real (amp ! i ! j) * exp (- \<i> * complex_of_real (ph ! i ! j))
                 \<and> cmod (fld ! i ! j) = \<bar>amp ! i ! j\<bar>)))
    \<and> (\<exists>fld. initial_field u t zR amp = Inr fld
          \<and> (\<forall>i < n_pts. \<forall>j < n_pts.
                cmod (fld ! i ! j) = \<bar>amp ! i ! j\<bar>
              \<and> (cmod (fld ! i ! j)) ^ 2 = (amp ! i ! j) ^ 2
              \<and> fld ! i ! j =
                  exp (\<i> * complex_of_real
                     (guoy (z0 zR)
                        (rayleigh (lp_w0 (laserParameters u t)) (lp_lambda0 (laserParameters u t)))))
                  * (complex_of_real (amp ! i ! j) *
                     exp (- \<i> * complex_of_real
                       (k0 (lp_lambda0 (laserParameters u t))
                          * ((X_grid u ! i ! j) ^ 2 + (Y_grid u ! i ! j) ^ 2) / (2 * Rz zR))))))"
proof -
  let ?f = "\<lambda>a p. complex_of_real a * exp (- \<i> * complex_of_real p)"
  let ?lam = "lp_lambda0 (laserParameters u t)"
  let ?w = "lp_w0 (laserParameters u t)"
  let ?g = "guoy (z0 zR) (rayleigh ?w ?lam)"
  let ?ph = "inputPhase (k0 (0.800 * u)) (Rz zR) (guoy (z0 zR) (rayleigh (30.0 * u) (0.800 * u)))
               (X_grid u) (Y_grid u)"
  have lam: "?lam = 0.800 * u" and w: "?w = 30.0 * u" by (simp_all add: laserParameters_def)
  have gen: "\<exists>fld. apply_phase amp ph = Inr fld
             \<and> (\<forall>i < n_pts. \<forall>j < n_pts.
                   fld ! i ! j = ?f (amp ! i ! j) (ph ! i ! j)
                 \<and> cmod (fld ! i ! j) = \<bar>amp ! i ! j\<bar>)" if ph: "on_grid ph" for ph
  proof (intro exI conjI allI impI)
    show "apply_phase amp ph = Inr (map2 (map2 ?f) amp ph)"
      unfolding apply_phase_def using assms(2) ph by (rule broadcast2_on_grid)
  next
    fix i j assume i: "i < n_pts" and j: "j < n_pts"
    show e: "map2 (map2 ?f) amp ph ! i ! j = ?f (amp ! i ! j) (ph ! i ! j)"
      using assms(2) ph i j by (rule map2_map2_nth)
    show "cmod (map2 (map2 ?f) amp ph ! i ! j) = \<bar>amp ! i ! j\<bar>"
      by (simp only: e cmod_phase_factor)
  qed
  have f: "initial_field u t zR amp = Inr (map2 (map2 ?f) amp ?ph)"
    using assms by (rule initial_field_on_grid)
  have px: "cmod (map2 (map2 ?f) amp ?ph ! i ! j) = \<bar>amp ! i ! j\<bar>
          \<and> (cmod (map2 (map2 ?f) amp ?ph ! i ! j)) ^ 2 = (amp ! i ! j) ^ 2
          \<and> map2 (map2 ?f) amp ?ph ! i ! j =
              exp (\<i> * complex_of_real ?g)
                * (complex_of_real (amp ! i ! j) *
                   exp (- \<i> * complex_of_real
                     (k0 ?lam * ((X_grid u ! i ! j) ^ 2 + (Y_grid u ! i ! j) ^ 2) / (2 * Rz zR))))"
    if i: "i < n_pts" and j: "j < n_pts" for i j
  proof -
    have e: "map2 (map2 ?f) amp ?ph ! i ! j = ?f (amp ! i ! j) (?ph ! i ! j)"
      using assms(2) on_grid_inputPhase i j by (rule map2_map2_nth)
    have m: "cmod (map2 (map2 ?f) amp ?ph ! i ! j) = \<bar>amp ! i ! j\<bar>"
      by (simp only: e cmod_phase_factor)
    have s: "(cmod (map2 (map2 ?f) amp ?ph ! i ! j)) ^ 2 = (amp ! i ! j) ^ 2"
      by (simp only: m power2_abs)
    have "?ph ! i ! j =
        k0 ?lam * ((X_grid u ! i ! j) ^ 2 + (Y_grid u ! i ! j) ^ 2) / (2 * Rz zR) - ?g"
      by (simp only: inputPhase_nth[OF i j] lam w)
    then have "map2 (map2 ?f) amp ?ph ! i ! j =
        ?f (amp ! i ! j)
           (k0 ?lam * ((X_grid u ! i ! j) ^ 2 + (Y_grid u ! i ! j) ^ 2) / (2 * Rz zR) - ?g)"
      by (simp only: e)
    then have c: "map2 (map2 ?f) amp ?ph ! i ! j =
              exp (\<i> * complex_of_real ?g)
                * (complex_of_real (amp ! i ! j) *
                   exp (- \<i> * complex_of_real
                     (k0 ?lam * ((X_grid u ! i ! j) ^ 2 + (Y_grid u ! i ! j) ^ 2) / (2 * Rz zR))))"
      by (simp only: gouy_global_phase)
    from m s c show ?thesis by (intro conjI)
  qed
  have all: "\<forall>i < n_pts. \<forall>j < n_pts.
            cmod (map2 (map2 ?f) amp ?ph ! i ! j) = \<bar>amp ! i ! j\<bar>
          \<and> (cmod (map2 (map2 ?f) amp ?ph ! i ! j)) ^ 2 = (amp ! i ! j) ^ 2
          \<and> map2 (map2 ?f) amp ?ph ! i ! j =
              exp (\<i> * complex_of_real ?g)
                * (complex_of_real (amp ! i ! j) *
                   exp (- \<i> * complex_of_real
                     (k0 ?lam * ((X_grid u ! i ! j) ^ 2 + (Y_grid u ! i ! j) ^ 2) / (2 * Rz zR))))"
  proof (intro allI impI)
    fix i j assume "i < n_pts" "j < n_pts"
    then show "cmod (map2 (map2 ?f) amp ?ph ! i ! j) = \<bar>amp ! i ! j\<bar>
          \<and> (cmod (map2 (map2 ?f) amp ?ph ! i ! j)) ^ 2 = (amp ! i ! j) ^ 2
          \<and> map2 (map2 ?f) amp ?ph ! i ! j =
              exp (\<i> * complex_of_real ?g)
                * (complex_of_real (amp ! i ! j) *
                   exp (- \<i> * complex_of_real
                     (k0 ?lam * ((X_grid u ! i ! j) ^ 2 + (Y_grid u ! i ! j) ^ 2) / (2 * Rz zR))))"
      by (rule px)
  qed
  have spec: "\<exists>fld. initial_field u t zR amp = Inr fld
          \<and> (\<forall>i < n_pts. \<forall>j < n_pts.
                cmod (fld ! i ! j) = \<bar>amp ! i ! j\<bar>
              \<and> (cmod (fld ! i ! j)) ^ 2 = (amp ! i ! j) ^ 2
              \<and> fld ! i ! j =
                  exp (\<i> * complex_of_real ?g)
                  * (complex_of_real (amp ! i ! j) *
                     exp (- \<i> * complex_of_real
                       (k0 ?lam * ((X_grid u ! i ! j) ^ 2 + (Y_grid u ! i ! j) ^ 2) / (2 * Rz zR)))))"
    using f all by (intro exI conjI)
  from gen have gen': "\<forall>ph. on_grid ph \<longrightarrow>
          (\<exists>fld. apply_phase amp ph = Inr fld
             \<and> (\<forall>i < n_pts. \<forall>j < n_pts.
                   fld ! i ! j = ?f (amp ! i ! j) (ph ! i ! j)
                 \<and> cmod (fld ! i ! j) = \<bar>amp ! i ! j\<bar>))"
    by (intro allI impI)
  from gen' spec show ?thesis by (intro conjI)
qed

theorem phase_keeps_modulus_witness:
  "(1 :: real) \<noteq> 0 \<and> on_grid (replicate n_pts (replicate n_pts (2 :: real)))
   \<and> on_grid (replicate n_pts (replicate n_pts (pi :: real)))
   \<and> 0 < n_pts
   \<and> (\<exists>fld. apply_phase (replicate n_pts (replicate n_pts 2)) (replicate n_pts (replicate n_pts pi))
               = Inr fld
          \<and> fld ! 0 ! 0 = - 2 \<and> cmod (fld ! 0 ! 0) = \<bar>2\<bar>)
   \<and> (\<exists>fld. initial_field 1 1 1 (replicate n_pts (replicate n_pts 2)) = Inr fld
          \<and> cmod (fld ! 0 ! 0) = \<bar>2\<bar> \<and> (cmod (fld ! 0 ! 0)) ^ 2 = 2 ^ 2)"
proof -
  have h: "(1 :: real) \<noteq> 0" by simp
  have g: "on_grid (replicate n_pts (replicate n_pts (2 :: real)))" by (rule on_grid_replicate)
  have g': "on_grid (replicate n_pts (replicate n_pts (pi :: real)))" by (rule on_grid_replicate)
  have n: "0 < n_pts" by (simp add: n_pts_def)
  note p = phase_keeps_modulus[OF h g, of 1 1]
  from p[THEN conjunct1, rule_format, OF g'] obtain fld where
    f: "apply_phase (replicate n_pts (replicate n_pts 2)) (replicate n_pts (replicate n_pts pi))
          = Inr fld"
    and q: "\<forall>i < n_pts. \<forall>j < n_pts.
        fld ! i ! j = complex_of_real (replicate n_pts (replicate n_pts 2) ! i ! j)
            * exp (- \<i> * complex_of_real (replicate n_pts (replicate n_pts pi) ! i ! j))
        \<and> cmod (fld ! i ! j) = \<bar>replicate n_pts (replicate n_pts 2) ! i ! j\<bar>"
    by (elim exE conjE)
  note r = q[rule_format, OF n n]
  from r[THEN conjunct1] n have v: "fld ! 0 ! 0 = - 2" by (simp add: exp_minus exp_pi_i')
  from r[THEN conjunct2] n have m: "cmod (fld ! 0 ! 0) = \<bar>2\<bar>" by simp
  from f v m have a: "\<exists>fld. apply_phase (replicate n_pts (replicate n_pts 2))
        (replicate n_pts (replicate n_pts pi)) = Inr fld
          \<and> fld ! 0 ! 0 = - 2 \<and> cmod (fld ! 0 ! 0) = \<bar>2\<bar>"
    by (intro exI conjI)
  from p[THEN conjunct2] obtain fld' where
    f': "initial_field 1 1 1 (replicate n_pts (replicate n_pts 2)) = Inr fld'"
    and q': "\<forall>i < n_pts. \<forall>j < n_pts.
        cmod (fld' ! i ! j) = \<bar>replicate n_pts (replicate n_pts 2) ! i ! j\<bar>
        \<and> (cmod (fld' ! i ! j)) ^ 2 = (replicate n_pts (replicate n_pts 2) ! i ! j) ^ 2
        \<and> fld' ! i ! j =
                  exp (\<i> * complex_of_real
                     (guoy (z0 1)
                        (rayleigh (lp_w0 (laserParameters 1 1)) (lp_lambda0 (laserParameters 1 1)))))
                  * (complex_of_real (replicate n_pts (replicate n_pts 2) ! i ! j) *
                     exp (- \<i> * complex_of_real
                       (k0 (lp_lambda0 (laserParameters 1 1))
                          * ((X_grid 1 ! i ! j) ^ 2 + (Y_grid 1 ! i ! j) ^ 2) / (2 * Rz 1))))"
    by (elim exE conjE)
  note r' = q'[rule_format, OF n n]
  from r'[THEN conjunct1] n have m': "cmod (fld' ! 0 ! 0) = \<bar>2\<bar>" by simp
  from r'[THEN conjunct2, THEN conjunct1] n have s': "(cmod (fld' ! 0 ! 0)) ^ 2 = 2 ^ 2" by simp
  from f' m' s' have b: "\<exists>fld. initial_field 1 1 1 (replicate n_pts (replicate n_pts 2)) = Inr fld
          \<and> cmod (fld ! 0 ! 0) = \<bar>2\<bar> \<and> (cmod (fld ! 0 ! 0)) ^ 2 = 2 ^ 2"
    by (intro exI conjI)
  show ?thesis by (intro conjI h g g' n a b)
qed

subsection \<open>Rules for the calls a piece of the script emits\<close>

lemma emits_bnd:
  assumes m: "emits m k1" and f: "\<And>v. emits (f v) k2" and ks: "ks = k1 @ k2"
  shows "emits (bnd m f) ks"
  unfolding emits_def
proof
  fix s
  obtain r s' where ms: "m s = (r, s')" by (cases "m s")
  from m[unfolded emits_def, rule_format, of s] ms obtain a where
    a: "map kind_of (calls s') = map kind_of (calls s) @ a" "prefix a k1" "isl r \<or> a = k1"
    by auto
  show "\<exists>ks'. map kind_of (calls (snd (bnd m f s))) = map kind_of (calls s) @ ks'
          \<and> prefix ks' ks \<and> (isl (fst (bnd m f s)) \<or> ks' = ks)"
  proof (cases r)
    case (Inl e)
    with ms a ks show ?thesis by (auto simp: bnd_def prefix_def)
  next
    case (Inr v)
    with a have ak: "a = k1" by simp
    obtain r2 s2 where fs: "f v s' = (r2, s2)" by (cases "f v s'")
    from f[of v, unfolded emits_def, rule_format, of s'] fs obtain b where
      b: "map kind_of (calls s2) = map kind_of (calls s') @ b" "prefix b k2" "isl r2 \<or> b = k2"
      by auto
    from Inr ms fs have "bnd m f s = (r2, s2)" by (simp add: bnd_def)
    with a(1) ak b ks show ?thesis by (auto simp: prefix_def)
  qed
qed

lemma emits_seq:
  "emits m k1 \<Longrightarrow> emits n k2 \<Longrightarrow> ks = k1 @ k2 \<Longrightarrow> emits (seq m n) ks"
  unfolding seq_def by (rule emits_bnd)

lemma emits_ret: "emits (ret v) []"
  by (simp add: emits_def ret_def)

lemma emits_raise: "emits (raise e) []"
  by (simp add: emits_def raise_def)

lemma emits_lift: "emits (lift r) []"
  by (simp add: emits_def lift_def)

lemma emits_guard: "emits (guard b e) []"
  by (simp add: guard_def emits_ret emits_raise)

lemma emits_alloc: "emits (alloc b) []"
  by (simp add: emits_def alloc_def)

lemma emits_load: "emits (load a) []"
  by (simp add: emits_def load_def)

lemma emits_store_at: "emits (store_at a b) []"
  by (simp add: emits_def store_at_def)

lemma emits_call: "kind_of ev = k \<Longrightarrow> emits (call ev r) [k]"
  by (auto simp: emits_def call_def)

lemma emits_load_c3: "emits (load_c3 a) []"
  unfolding load_c3_def
  by (rule emits_bnd[OF emits_load, where ?k2.0 = "[]"]) (auto simp: emits_ret emits_raise split: buf.splits)

lemma emits_load_c2: "emits (load_c2 a) []"
  unfolding load_c2_def
  by (rule emits_bnd[OF emits_load, where ?k2.0 = "[]"]) (auto simp: emits_ret emits_raise split: buf.splits)

lemma emits_load_c1: "emits (load_c1 a) []"
  unfolding load_c1_def
  by (rule emits_bnd[OF emits_load, where ?k2.0 = "[]"]) (auto simp: emits_ret emits_raise split: buf.splits)

lemma emits_load_r2: "emits (load_r2 a) []"
  unfolding load_r2_def
  by (rule emits_bnd[OF emits_load, where ?k2.0 = "[]"]) (auto simp: emits_ret emits_raise split: buf.splits)

lemma emits_load_r1: "emits (load_r1 a) []"
  unfolding load_r1_def
  by (rule emits_bnd[OF emits_load, where ?k2.0 = "[]"]) (auto simp: emits_ret emits_raise split: buf.splits)

lemma emits_for_loop: "(\<And>i. emits (body i) []) \<Longrightarrow> emits (for_loop js body) []"
proof (induction js)
  case Nil
  show ?case by (simp add: emits_ret)
next
  case (Cons j js)
  show ?case
    by (simp only: for_loop.simps) (rule emits_bnd[OF Cons.prems Cons.IH[OF Cons.prems]], simp)
qed

lemma emits_mpl: "emits (mpl L line name) [K_mpl line]"
  unfolding mpl_def by (rule emits_call) simp

lemma emits_import_mod: "emits (import_mod L name) [K_import]"
  unfolding import_mod_def by (rule emits_call) simp

lemmas emits_quiet =
  emits_ret emits_raise emits_lift emits_guard emits_alloc emits_load emits_store_at
  emits_load_c3 emits_load_c2 emits_load_c1 emits_load_r2 emits_load_r1

lemma emits_thresh_iter: "emits (thresh_iter a b zi) []"
  unfolding thresh_iter_def
  by (rule emits_bnd emits_seq emits_quiet refl)+ simp

lemmas emits_ev =
  emits_call[OF kind_of.simps(1)] emits_call[OF kind_of.simps(2)] emits_call[OF kind_of.simps(3)]
  emits_call[OF kind_of.simps(4)] emits_call[OF kind_of.simps(5)] emits_call[OF kind_of.simps(6)]
  emits_call[OF kind_of.simps(7)] emits_call[OF kind_of.simps(8)] emits_call[OF kind_of.simps(9)]
  emits_call[OF kind_of.simps(10)]

lemmas emits_rules =
  emits_bnd emits_seq emits_quiet emits_ev emits_mpl emits_import_mod refl

lemma emits_cell_imports: "emits (cell_imports L) [K_import, K_import, K_import, K_import]"
  unfolding cell_imports_def
  by (rule emits_rules)+ simp

lemma emits_cell_laser: "emits (cell_laser L) [K_get_zr]"
  unfolding cell_laser_def Let_def
  by (rule emits_rules)+ simp

lemma emits_cell_grid:
  "emits (cell_grid L lp zR)
     [K_make_inputBeam, K_mpl 95, K_mpl 96, K_mpl 100, K_shadow, K_mpl 102, K_mpl 108,
      K_mpl 111, K_phase, K_mpl 112]"
  unfolding cell_grid_def
  by (rule emits_rules)+ simp

lemma emits_cell_setup: "emits (cell_setup L b zR) [K_setup_propagate]"
  unfolding cell_setup_def Let_def
  by (rule emits_rules)+

lemma emits_cell_propagate: "emits (cell_propagate L r k) [K_propagate_in_z]"
  unfolding cell_propagate_def case_prod_beta
  by (rule emits_rules)+ simp

lemma emits_cell_explorer: "emits (cell_explorer L a z) [K_explorer]"
  unfolding cell_explorer_def
  by (rule emits_rules)+ simp

lemma emits_thresh_block: "emits (thresh_block a) []"
  unfolding thresh_block_def
  by (rule emits_rules emits_for_loop emits_thresh_iter)+ simp

lemma emits_cell_compare:
  "emits (cell_compare L a z)
     [K_mpl 155, K_mpl 157, K_shadow, K_mpl 160, K_phase, K_MidpointNormalize, K_mpl 163,
      K_mpl 171, K_mpl 173, K_mpl 174, K_mpl 175, K_mpl 176, K_mpl 195, K_mpl 196, K_mpl 197,
      K_mpl 199, K_mpl 200, K_mpl 201, K_mpl 202]"
  unfolding cell_compare_def
  by (rule emits_rules emits_thresh_block)+ simp

lemma emits_cell_wavefront:
  "emits (cell_wavefront L a z) [K_mpl 209, K_mpl 212, K_mpl 214, K_mpl 215, K_mpl 216]"
  unfolding cell_wavefront_def
  by (rule emits_rules)+ simp

lemma emits_cell_focus:
  "emits (cell_focus L a z)
     [K_shadow, K_mpl 233, K_mpl 234, K_mpl 235, K_mpl 237, K_mpl 238, K_mpl 239, K_mpl 241,
      K_mpl 242, K_mpl 249, K_mpl 250]"
  unfolding cell_focus_def Let_def
  by (rule emits_rules)+ simp

lemma emits_upto_propagate: "emits (upto_propagate L) (phase_a @ phase_b)"
  unfolding upto_propagate_def case_prod_beta
  by (rule emits_bnd emits_seq emits_ret emits_cell_imports emits_cell_laser emits_cell_grid
        emits_cell_setup emits_cell_propagate refl)+
     (simp add: phase_a_def phase_b_def)

lemma emits_after_propagate: "emits (after_propagate L a z) phase_c"
  unfolding after_propagate_def
  by (rule emits_bnd emits_seq emits_ret emits_cell_explorer emits_cell_compare
        emits_cell_wavefront emits_cell_focus refl)+
     (simp add: phase_c_def)

lemma emits_script: "emits (script L) (phase_a @ phase_b @ phase_c)"
  unfolding script_def case_prod_beta
  by (rule emits_bnd[OF emits_upto_propagate emits_after_propagate]) simp

lemma count_list_append: "count_list (xs @ ys) k = count_list xs k + count_list ys k"
  by (induction xs) simp_all

lemma prefix_count_le: "prefix xs ys \<Longrightarrow> count_list xs k \<le> count_list ys k"
  by (auto simp: prefix_def count_list_append)

lemma count_propagate: "count_list (phase_a @ phase_b @ phase_c) K_propagate_in_z = 1"
  by (simp add: phase_a_def phase_b_def phase_c_def)

lemma script_trace:
  "prefix (map kind_of (calls (snd (script L init_state)))) (phase_a @ phase_b @ phase_c)
   \<and> (isl (fst (script L init_state))
        \<or> map kind_of (calls (snd (script L init_state))) = phase_a @ phase_b @ phase_c)"
  using emits_script[of L, unfolded emits_def, rule_format, of init_state]
  by (auto simp: init_state_def)

text \<open>
  C5. In every run, whatever the library does, the calls made are an initial part of the
  sequence phase (a), phase (b), phase (c), and the whole sequence when the script runs to its
  end; phase (b) is \<^verbatim>\<open>setup_propagate\<close> followed by \<^verbatim>\<open>propagate_in_z\<close>; neither occurs in
  phase (a) or (c); \<^verbatim>\<open>propagate_in_z\<close> is called at most once, and exactly once in a run
  that reaches the end.
\<close>

theorem three_phases:
  "prefix (map kind_of (calls (snd (script L init_state)))) (phase_a @ phase_b @ phase_c)
   \<and> (\<not> isl (fst (script L init_state)) \<longrightarrow>
         map kind_of (calls (snd (script L init_state))) = phase_a @ phase_b @ phase_c)
   \<and> phase_b = [K_setup_propagate, K_propagate_in_z]
   \<and> K_propagate_in_z \<notin> set phase_a \<and> K_propagate_in_z \<notin> set phase_c
   \<and> K_setup_propagate \<notin> set phase_a \<and> K_setup_propagate \<notin> set phase_c
   \<and> count_list (map kind_of (calls (snd (script L init_state)))) K_propagate_in_z \<le> 1
   \<and> (\<not> isl (fst (script L init_state)) \<longrightarrow>
         count_list (map kind_of (calls (snd (script L init_state)))) K_propagate_in_z = 1)"
proof -
  let ?tr = "map kind_of (calls (snd (script L init_state)))"
  note t = script_trace[of L]
  have p: "prefix ?tr (phase_a @ phase_b @ phase_c)" by (rule t[THEN conjunct1])
  have c: "\<not> isl (fst (script L init_state)) \<longrightarrow> ?tr = phase_a @ phase_b @ phase_c"
    using t[THEN conjunct2] by blast
  have b: "phase_b = [K_setup_propagate, K_propagate_in_z]" by (simp add: phase_b_def)
  have n1: "K_propagate_in_z \<notin> set phase_a" by (simp add: phase_a_def)
  have n2: "K_propagate_in_z \<notin> set phase_c" by (simp add: phase_c_def)
  have n3: "K_setup_propagate \<notin> set phase_a" by (simp add: phase_a_def)
  have n4: "K_setup_propagate \<notin> set phase_c" by (simp add: phase_c_def)
  have le: "count_list ?tr K_propagate_in_z \<le> 1"
    using prefix_count_le[OF p, of K_propagate_in_z] by (simp only: count_propagate)
  have eq: "\<not> isl (fst (script L init_state)) \<longrightarrow> count_list ?tr K_propagate_in_z = 1"
    using c count_propagate by auto
  show ?thesis by (intro conjI p c b n1 n2 n3 n4 le eq)
qed

subsection \<open>Rules for the buffer a piece of the script keeps\<close>

lemma keeps_bnd:
  assumes m: "keeps a m" and f: "\<And>v. keeps a (f v)"
  shows "keeps a (bnd m f)"
  unfolding keeps_def
proof (intro allI impI)
  fix s :: "'a state" assume a: "a < length (heap s)"
  obtain r s' where ms: "m s = (r, s')" by (cases "m s")
  from m[unfolded keeps_def, rule_format, OF a] ms
  have k: "a < length (heap s')" "heap s' ! a = heap s ! a" by simp_all
  show "a < length (heap (snd (bnd m f s))) \<and> heap (snd (bnd m f s)) ! a = heap s ! a"
  proof (cases r)
    case (Inl e)
    with ms k show ?thesis by (simp add: bnd_def)
  next
    case (Inr v)
    from f[of v, unfolded keeps_def, rule_format, OF k(1)] k(2) Inr ms
    show ?thesis by (simp add: bnd_def)
  qed
qed

lemma keeps_seq: "keeps a m \<Longrightarrow> keeps a n \<Longrightarrow> keeps a (seq m n)"
  unfolding seq_def by (rule keeps_bnd)

lemma keeps_bnd_alloc:
  assumes f: "\<And>a'. a < a' \<Longrightarrow> keeps a (f a')"
  shows "keeps a (bnd (alloc b) f)"
  unfolding keeps_def
proof (intro allI impI)
  fix s :: "'a state" assume a: "a < length (heap s)"
  let ?s' = "s\<lparr>heap := heap s @ [b]\<rparr>"
  have e: "bnd (alloc b) f s = f (length (heap s)) ?s'" by (simp add: bnd_def alloc_def)
  have "a < length (heap ?s')" using a by simp
  from f[OF a, unfolded keeps_def, rule_format, OF this] a
  show "a < length (heap (snd (bnd (alloc b) f s))) \<and> heap (snd (bnd (alloc b) f s)) ! a = heap s ! a"
    by (simp add: e nth_append)
qed

lemma keeps_ret: "keeps a (ret v)"
  by (simp add: keeps_def ret_def)

lemma keeps_raise: "keeps a (raise e)"
  by (simp add: keeps_def raise_def)

lemma keeps_lift: "keeps a (lift r)"
  by (simp add: keeps_def lift_def)

lemma keeps_guard: "keeps a (guard b e)"
  by (simp add: guard_def keeps_ret keeps_raise)

lemma keeps_call: "keeps a (call ev r)"
  by (simp add: keeps_def call_def)

lemma keeps_alloc: "keeps a (alloc b)"
  by (simp add: keeps_def alloc_def nth_append)

lemma keeps_load: "keeps a (load b)"
  by (simp add: keeps_def load_def)

lemma keeps_store_at: "a < b \<Longrightarrow> keeps a (store_at b v)"
  by (simp add: keeps_def store_at_def)

lemma keeps_load_c3: "keeps a (load_c3 b)"
  unfolding load_c3_def
  by (rule keeps_bnd[OF keeps_load]) (auto simp: keeps_ret keeps_raise split: buf.splits)

lemma keeps_load_c2: "keeps a (load_c2 b)"
  unfolding load_c2_def
  by (rule keeps_bnd[OF keeps_load]) (auto simp: keeps_ret keeps_raise split: buf.splits)

lemma keeps_load_c1: "keeps a (load_c1 b)"
  unfolding load_c1_def
  by (rule keeps_bnd[OF keeps_load]) (auto simp: keeps_ret keeps_raise split: buf.splits)

lemma keeps_load_r2: "keeps a (load_r2 b)"
  unfolding load_r2_def
  by (rule keeps_bnd[OF keeps_load]) (auto simp: keeps_ret keeps_raise split: buf.splits)

lemma keeps_load_r1: "keeps a (load_r1 b)"
  unfolding load_r1_def
  by (rule keeps_bnd[OF keeps_load]) (auto simp: keeps_ret keeps_raise split: buf.splits)

lemma keeps_for_loop: "(\<And>i. keeps a (body i)) \<Longrightarrow> keeps a (for_loop js body)"
proof (induction js)
  case Nil
  show ?case by (simp add: keeps_ret)
next
  case (Cons j js)
  show ?case
    by (simp only: for_loop.simps) (rule keeps_bnd[OF Cons.prems Cons.IH[OF Cons.prems]])
qed

lemma keeps_mpl: "keeps a (mpl L line name)"
  unfolding mpl_def by (rule keeps_call)

lemmas keeps_rules =
  keeps_bnd_alloc keeps_bnd keeps_seq keeps_ret keeps_raise keeps_lift keeps_guard keeps_call
  keeps_alloc keeps_load keeps_store_at keeps_load_c3 keeps_load_c2 keeps_load_c1
  keeps_load_r2 keeps_load_r1 keeps_mpl

lemma keeps_thresh_iter: "a < b \<Longrightarrow> keeps a (thresh_iter a b zi)"
  unfolding thresh_iter_def
  by (rule keeps_rules | assumption)+

lemma keeps_cell_explorer: "keeps a (cell_explorer L a z)"
  unfolding cell_explorer_def
  by (rule keeps_rules)+

lemma keeps_thresh_block: "keeps a (thresh_block a)"
  unfolding thresh_block_def
  by (rule keeps_rules keeps_for_loop keeps_thresh_iter | assumption)+

lemma keeps_cell_compare: "keeps a (cell_compare L a z)"
  unfolding cell_compare_def
  by (rule keeps_rules keeps_thresh_block)+

lemma keeps_cell_wavefront: "keeps a (cell_wavefront L a z)"
  unfolding cell_wavefront_def
  by (rule keeps_rules)+

lemma keeps_cell_focus: "keeps a (cell_focus L a z)"
  unfolding cell_focus_def Let_def
  by (rule keeps_rules)+

lemma keeps_after_propagate: "keeps a (after_propagate L a z)"
  unfolding after_propagate_def
  by (rule keeps_bnd keeps_seq keeps_ret keeps_cell_explorer keeps_cell_compare
        keeps_cell_wavefront keeps_cell_focus)+

subsection \<open>Rules for the calls a piece of the script makes\<close>

lemma calls_all_bnd:
  assumes m: "calls_all P m" and f: "\<And>v. calls_all P (f v)"
  shows "calls_all P (bnd m f)"
  unfolding calls_all_def
proof (intro allI impI)
  fix s :: "'a state" assume a: "list_all P (calls s)"
  obtain r s' where ms: "m s = (r, s')" by (cases "m s")
  from m[unfolded calls_all_def, rule_format, OF a] ms have k: "list_all P (calls s')" by simp
  show "list_all P (calls (snd (bnd m f s)))"
  proof (cases r)
    case (Inl e)
    with ms k show ?thesis by (simp add: bnd_def)
  next
    case (Inr v)
    from f[of v, unfolded calls_all_def, rule_format, OF k] Inr ms
    show ?thesis by (simp add: bnd_def)
  qed
qed

lemma calls_all_seq: "calls_all P m \<Longrightarrow> calls_all P n \<Longrightarrow> calls_all P (seq m n)"
  unfolding seq_def by (rule calls_all_bnd)

lemma calls_all_quiet: "(\<And>s. calls (snd (m s)) = calls s) \<Longrightarrow> calls_all P m"
  by (simp add: calls_all_def)

lemma quiet_ret: "calls (snd (ret v s)) = calls s"
  by (simp add: ret_def)

lemma quiet_raise: "calls (snd (raise e s)) = calls s"
  by (simp add: raise_def)

lemma quiet_lift: "calls (snd (lift r s)) = calls s"
  by (simp add: lift_def)

lemma quiet_guard: "calls (snd (guard b e s)) = calls s"
  by (simp add: guard_def quiet_ret quiet_raise)

lemma quiet_alloc: "calls (snd (alloc b s)) = calls s"
  by (simp add: alloc_def)

lemma quiet_load: "calls (snd (load a s)) = calls s"
  by (simp add: load_def)

lemma quiet_store_at: "calls (snd (store_at a b s)) = calls s"
  by (simp add: store_at_def)

lemma quiet_bnd:
  assumes "\<And>s. calls (snd (m s)) = calls s" "\<And>v s. calls (snd (f v s)) = calls s"
  shows "calls (snd (bnd m f s)) = calls s"
proof (cases "m s")
  case (Pair r s')
  with assms(1)[of s] have "calls s' = calls s" by simp
  with Pair assms(2) show ?thesis by (cases r) (simp_all add: bnd_def)
qed

lemma quiet_seq:
  "(\<And>s. calls (snd (m s)) = calls s) \<Longrightarrow> (\<And>s. calls (snd (n s)) = calls s)
     \<Longrightarrow> calls (snd (seq m n s)) = calls s"
  unfolding seq_def by (rule quiet_bnd)

lemma quiet_load_c3: "calls (snd (load_c3 a s)) = calls s"
  unfolding load_c3_def
  by (rule quiet_bnd[OF quiet_load]) (simp add: quiet_ret quiet_raise split: buf.splits)

lemma quiet_load_c2: "calls (snd (load_c2 a s)) = calls s"
  unfolding load_c2_def
  by (rule quiet_bnd[OF quiet_load]) (simp add: quiet_ret quiet_raise split: buf.splits)

lemma quiet_load_c1: "calls (snd (load_c1 a s)) = calls s"
  unfolding load_c1_def
  by (rule quiet_bnd[OF quiet_load]) (simp add: quiet_ret quiet_raise split: buf.splits)

lemma quiet_load_r2: "calls (snd (load_r2 a s)) = calls s"
  unfolding load_r2_def
  by (rule quiet_bnd[OF quiet_load]) (simp add: quiet_ret quiet_raise split: buf.splits)

lemma quiet_load_r1: "calls (snd (load_r1 a s)) = calls s"
  unfolding load_r1_def
  by (rule quiet_bnd[OF quiet_load]) (simp add: quiet_ret quiet_raise split: buf.splits)

lemmas quiet_rules =
  quiet_bnd quiet_seq quiet_ret quiet_raise quiet_lift quiet_guard quiet_alloc quiet_load
  quiet_store_at quiet_load_c3 quiet_load_c2 quiet_load_c1 quiet_load_r2 quiet_load_r1

lemma quiet_thresh_iter: "calls (snd (thresh_iter a b zi s)) = calls s"
  unfolding thresh_iter_def
  by (rule quiet_rules)+

lemma quiet_for_loop:
  "(\<And>i s. calls (snd (body i s)) = calls s) \<Longrightarrow> calls (snd (for_loop js body s)) = calls s"
proof (induction js arbitrary: s)
  case Nil
  show ?case by (simp add: quiet_ret)
next
  case (Cons j js)
  show ?case
    by (simp only: for_loop.simps) (rule quiet_bnd[OF Cons.prems Cons.IH[OF Cons.prems]])
qed

lemma quiet_thresh_loop: "calls (snd (for_loop js (thresh_iter a b) s)) = calls s"
  by (rule quiet_for_loop) (rule quiet_thresh_iter)

lemma quiet_thresh_block: "calls (snd (thresh_block a s)) = calls s"
  unfolding thresh_block_def
  by (rule quiet_rules quiet_thresh_loop)+

lemmas calls_all_quiet_rules =
  calls_all_quiet[of "ret v" for v, OF quiet_ret]
  calls_all_quiet[of "raise e" for e, OF quiet_raise]
  calls_all_quiet[of "lift r" for r, OF quiet_lift]
  calls_all_quiet[of "guard b e" for b e, OF quiet_guard]
  calls_all_quiet[of "alloc b" for b, OF quiet_alloc]
  calls_all_quiet[of "load_c3 a" for a, OF quiet_load_c3]
  calls_all_quiet[of "load_c2 a" for a, OF quiet_load_c2]
  calls_all_quiet[of "thresh_block a" for a, OF quiet_thresh_block]

lemma calls_all_call: "P ev \<Longrightarrow> calls_all P (call ev r)"
  by (simp add: calls_all_def call_def)

lemma vacuum_mpl: "calls_all vacuum (mpl L line name)"
  unfolding mpl_def by (rule calls_all_call) simp

lemma vacuum_import_mod: "calls_all vacuum (import_mod L name)"
  unfolding import_mod_def by (rule calls_all_call) simp

lemmas vacuum_rules =
  calls_all_bnd calls_all_seq calls_all_quiet_rules vacuum_mpl vacuum_import_mod

lemma vacuum_cell_imports: "calls_all vacuum (cell_imports L)"
  unfolding cell_imports_def by (rule vacuum_rules)+

lemma vacuum_cell_laser: "calls_all vacuum (cell_laser L)"
  unfolding cell_laser_def Let_def
  by (rule vacuum_rules | rule calls_all_call, simp)+

lemma vacuum_cell_grid: "calls_all vacuum (cell_grid L lp zR)"
  unfolding cell_grid_def
  by (rule vacuum_rules | rule calls_all_call, simp)+

lemma eta_ones: "eta (z_grid zR) = replicate n_pts (replicate n_pts (replicate nz 1))"
  by (simp add: eta_def eta0_def z_grid_def length_linspace)

lemma vacuum_cell_setup: "calls_all vacuum (cell_setup L b zR)"
  unfolding cell_setup_def Let_def
  by (rule calls_all_call) (simp add: eta_ones eta0_def)

lemma vacuum_cell_propagate: "calls_all vacuum (cell_propagate L r k)"
  unfolding cell_propagate_def case_prod_beta
  by (rule vacuum_rules | rule calls_all_call, simp)+

lemma vacuum_cell_explorer: "calls_all vacuum (cell_explorer L a z)"
  unfolding cell_explorer_def
  by (rule vacuum_rules | rule calls_all_call, simp add: ne_def)+

lemma vacuum_cell_compare: "calls_all vacuum (cell_compare L a z)"
  unfolding cell_compare_def
  by (rule vacuum_rules | rule calls_all_call, simp)+

lemma vacuum_cell_wavefront: "calls_all vacuum (cell_wavefront L a z)"
  unfolding cell_wavefront_def
  by (rule vacuum_rules | rule calls_all_call, simp)+

lemma vacuum_cell_focus: "calls_all vacuum (cell_focus L a z)"
  unfolding cell_focus_def Let_def
  by (rule vacuum_rules | rule calls_all_call, simp)+

lemma vacuum_script: "calls_all vacuum (script L)"
  unfolding script_def upto_propagate_def after_propagate_def case_prod_beta
  by (rule calls_all_bnd calls_all_seq calls_all_quiet_rules vacuum_cell_imports
        vacuum_cell_laser vacuum_cell_grid vacuum_cell_setup vacuum_cell_propagate
        vacuum_cell_explorer vacuum_cell_compare vacuum_cell_wavefront vacuum_cell_focus)+

lemma length_mask_le: "length (mask_le t f) = length f"
  by (simp add: mask_le_def mask_assign_def)

lemma length_mask_gt: "length (mask_gt t f) = length f"
  by (simp add: mask_gt_def mask_assign_def)

lemma shape2_const_rows: "xs \<noteq> [] \<Longrightarrow> shape2 (map (\<lambda>_. r) xs) = (length xs, length r)"
  by (cases xs) (simp_all add: shape2_def)

lemma y_grid_nonempty: "y_grid u \<noteq> []"
  using len_y[of u] by (auto simp: n_pts_def)

lemma initial_field_ok: "\<exists>b. initial_field 1 1 1 [[1]] = Inr b"
proof -
  have "rayleigh (30.0 * 1) (0.800 * 1) \<noteq> 0" by (simp add: rayleigh_def)
  then show ?thesis
    by (simp add: initial_field_def laserParameters_def Let_def apply_phase_def broadcast2_def
        shape2_on_grid[OF on_grid_inputPhase] shape2_def bc_dim_def n_pts_def)
qed

lemma cell_laser_ok:
  "\<exists>lp. fst (cell_laser lib_ok s) = Inr (lp, 1) \<and> heap (snd (cell_laser lib_ok s)) = heap s"
  by (simp add: cell_laser_def lib_ok_def Let_def bnd_def seq_def call_def guard_def ret_def
      z0_def zf_def)


lemma run_ok: "fst (script lib_ok init_state) = Inr (1, 4)"
proof -
  obtain b where b: "initial_field 1 1 1 [[1]] = Inr b" using initial_field_ok by blast
  have sh: "shape2 (fst (meshgrid (map (\<lambda>v. v * 1000) [0::real]) (map (\<lambda>v. v * 1000) (y_grid 1))))
      = (n_pts, 1)"
    by (simp add: meshgrid_def comp_def shape2_const_rows y_grid_nonempty len_y)
  show ?thesis
    by (simp add: script_def upto_propagate_def after_propagate_def cell_imports_def
        cell_laser_def cell_grid_def cell_setup_def cell_propagate_def cell_explorer_def
        cell_compare_def cell_wavefront_def cell_focus_def thresh_block_def thresh_iter_def
        lib_ok_def
        init_state_def Let_def bnd_def seq_def call_def guard_def ret_def raise_def lift_def
        alloc_def load_def store_at_def load_c3_def load_c2_def load_c1_def load_r2_def
        load_r1_def mpl_def import_mod_def b z0_def zf_def amax_def amin_def view_row_def
        view_col_def view_plane_def shape_last_def zeros_like_def set_col_def mid_val
        E_full_def broadcast2_def sh shape2_def bc_dim_def focal_idx_def argmin_def
        length_mask_le length_mask_gt n_pts_def nth_append)
qed

subsection \<open>Rules for exceptions\<close>






















































subsection \<open>The run under the library \<open>lib_ok\<close>\<close>

lemma run_ok_trace:
  "map kind_of (calls (snd (script lib_ok init_state))) = phase_a @ phase_b @ phase_c"
  using script_trace[of lib_ok] run_ok by auto

lemma kind_explorerE:
  "kind_of ev = K_explorer \<Longrightarrow> \<exists>F n z. ev = Ev_explorer F n z"
  by (cases ev) simp_all

lemma kind_setupE:
  "kind_of ev = K_setup_propagate \<Longrightarrow> \<exists>b X Y z e k e0 ab. ev = Ev_setup_propagate b X Y z e k e0 ab"
  by (cases ev) simp_all

lemma run_ok_explorer:
  "\<exists>F n z. Ev_explorer F n z \<in> set (calls (snd (script lib_ok init_state)))"
proof -
  have "K_explorer \<in> set (map kind_of (calls (snd (script lib_ok init_state))))"
    by (simp only: run_ok_trace) (simp add: phase_c_def)
  then obtain ev where ev: "ev \<in> set (calls (snd (script lib_ok init_state)))"
    and k: "kind_of ev = K_explorer" by auto
  from kind_explorerE[OF k] ev show ?thesis by auto
qed

lemma run_ok_setup:
  "\<exists>b X Y z e k e0 ab.
     Ev_setup_propagate b X Y z e k e0 ab \<in> set (calls (snd (script lib_ok init_state)))"
proof -
  have "K_setup_propagate \<in> set (map kind_of (calls (snd (script lib_ok init_state))))"
    by (simp only: run_ok_trace) (simp add: phase_b_def)
  then obtain ev where ev: "ev \<in> set (calls (snd (script lib_ok init_state)))"
    and k: "kind_of ev = K_setup_propagate" by auto
  from kind_setupE[OF k] obtain b X Y z e k' e0 ab where
    "ev = Ev_setup_propagate b X Y z e k' e0 ab" by blast
  with ev show ?thesis by blast
qed

subsection \<open>Vacuum\<close>

lemma script_vacuum: "list_all vacuum (calls (snd (script L init_state)))"
  using vacuum_script[of L, unfolded calls_all_def, rule_format, of init_state]
  by (simp add: init_state_def)

text \<open>
  C2. In every run, the density array handed to \<^verbatim>\<open>explorer\<close> is \<open>ne\<close>, which has the shape
  \<open>n_pts\<close> by \<open>n_pts\<close> by \<open>nz\<close> and is zero at every point, and the index array handed to
  \<^verbatim>\<open>setup_propagate\<close> has that shape and is \<open>eta0 = 1\<close> at every point.
\<close>

theorem vacuum_medium:
  "(\<forall>F n z. Ev_explorer F n z \<in> set (calls (snd (script L init_state))) \<longrightarrow>
       n = ne \<and> length n = n_pts
     \<and> (\<forall>i < n_pts. length (n ! i) = n_pts
          \<and> (\<forall>j < n_pts. length (n ! i ! j) = nz \<and> (\<forall>k < nz. n ! i ! j ! k = 0))))
   \<and> (\<forall>b X Y z e k e0 ab.
         Ev_setup_propagate b X Y z e k e0 ab \<in> set (calls (snd (script L init_state))) \<longrightarrow>
       e0 = eta0 \<and> eta0 = 1 \<and> length e = n_pts
     \<and> (\<forall>i < n_pts. length (e ! i) = n_pts
          \<and> (\<forall>j < n_pts. length (e ! i ! j) = nz \<and> (\<forall>k < nz. e ! i ! j ! k = eta0))))"
proof (intro conjI allI impI)
  fix F n z assume "Ev_explorer F n z \<in> set (calls (snd (script L init_state)))"
  with script_vacuum[of L] have "vacuum (Ev_explorer F n z :: 'a event)"
    by (auto simp: list_all_iff)
  then have n: "n = replicate n_pts (replicate n_pts (replicate nz 0))" by simp
  show "n = ne" by (simp add: n ne_def)
  show "length n = n_pts" by (simp add: n)
  fix i assume i: "i < n_pts"
  show "length (n ! i) = n_pts" using i by (simp add: n)
  fix j assume j: "j < n_pts"
  show "length (n ! i ! j) = nz" using i j by (simp add: n)
  fix k assume "k < nz"
  with i j show "n ! i ! j ! k = 0" by (simp add: n)
next
  fix b X Y z e k e0 ab
  assume "Ev_setup_propagate b X Y z e k e0 ab \<in> set (calls (snd (script L init_state)))"
  with script_vacuum[of L] have "vacuum (Ev_setup_propagate b X Y z e k e0 ab :: 'a event)"
    by (auto simp: list_all_iff)
  then have e: "e = replicate n_pts (replicate n_pts (replicate nz 1))" and e0: "e0 = 1" by simp_all
  show "e0 = eta0" by (simp add: e0 eta0_def)
  show "eta0 = 1" by (simp add: eta0_def)
  show "length e = n_pts" by (simp add: e)
  fix i assume i: "i < n_pts"
  show "length (e ! i) = n_pts" using i by (simp add: e)
  fix j assume j: "j < n_pts"
  show "length (e ! i ! j) = nz" using i j by (simp add: e)
  fix k' assume "k' < nz"
  with i j show "e ! i ! j ! k' = eta0" by (simp add: e eta0_def)
qed

theorem vacuum_medium_witness:
  "(\<exists>F n z. Ev_explorer F n z \<in> set (calls (snd (script lib_ok init_state)))
      \<and> n = ne \<and> n ! 0 ! 0 ! 0 = 0)
   \<and> (\<exists>b X Y z e k e0 ab.
        Ev_setup_propagate b X Y z e k e0 ab \<in> set (calls (snd (script lib_ok init_state)))
      \<and> e0 = 1 \<and> e ! 0 ! 0 ! 0 = 1)"
proof -
  note v = vacuum_medium[of lib_ok]
  have p: "0 < n_pts" "0 < nz" by (simp_all add: n_pts_def nz_def)
  from run_ok_explorer obtain F n z where
    ev: "Ev_explorer F n z \<in> set (calls (snd (script lib_ok init_state)))" by blast
  note c = v[THEN conjunct1, rule_format, OF ev]
  have "n = ne" by (rule c[THEN conjunct1])
  moreover have "n ! 0 ! 0 ! 0 = 0"
    by (rule c[THEN conjunct2, THEN conjunct2, rule_format, OF p(1), THEN conjunct2,
          rule_format, OF p(1), THEN conjunct2, rule_format, OF p(2)])
  ultimately have "n = ne" "n ! 0 ! 0 ! 0 = 0" .
  with ev have a: "\<exists>F n z. Ev_explorer F n z \<in> set (calls (snd (script lib_ok init_state)))
      \<and> n = ne \<and> n ! 0 ! 0 ! 0 = 0" by blast
  from run_ok_setup obtain b X Y z' e k e0 ab where
    ev': "Ev_setup_propagate b X Y z' e k e0 ab \<in> set (calls (snd (script lib_ok init_state)))"
    by blast
  note c' = v[THEN conjunct2, rule_format, OF ev']
  have "e0 = 1" using c'[THEN conjunct1] c'[THEN conjunct2, THEN conjunct1] by simp
  moreover have "e ! 0 ! 0 ! 0 = eta0"
    by (rule c'[THEN conjunct2, THEN conjunct2, THEN conjunct2, rule_format, OF p(1),
          THEN conjunct2, rule_format, OF p(1), THEN conjunct2, rule_format, OF p(2)])
  ultimately have "e0 = 1" "e ! 0 ! 0 ! 0 = 1" by (simp_all add: eta0_def)
  with ev' have b: "\<exists>b X Y z e k e0 ab.
        Ev_setup_propagate b X Y z e k e0 ab \<in> set (calls (snd (script lib_ok init_state)))
      \<and> e0 = 1 \<and> e ! 0 ! 0 ! 0 = 1" by blast
  from a b show ?thesis by (rule conjI)
qed

theorem three_phases_witness:
  "\<not> isl (fst (script lib_ok init_state))
   \<and> map kind_of (calls (snd (script lib_ok init_state))) = phase_a @ phase_b @ phase_c
   \<and> count_list (map kind_of (calls (snd (script lib_ok init_state)))) K_propagate_in_z = 1"
proof -
  have h: "\<not> isl (fst (script lib_ok init_state))" by (simp add: run_ok)
  note t = three_phases[of lib_ok]
  from t[THEN conjunct2, THEN conjunct1] h
  have a: "map kind_of (calls (snd (script lib_ok init_state))) = phase_a @ phase_b @ phase_c" by simp
  from t[THEN conjunct2, THEN conjunct2, THEN conjunct2, THEN conjunct2, THEN conjunct2,
         THEN conjunct2, THEN conjunct2, THEN conjunct2] h
  have b: "count_list (map kind_of (calls (snd (script lib_ok init_state)))) K_propagate_in_z = 1"
    by simp
  from h a b show ?thesis by (intro conjI)
qed

subsection \<open>The field after the propagation\<close>

lemma bnd_InrE:
  assumes "bnd m f s = (Inr v, s')"
  obtains u t where "m s = (Inr u, t)" "f u t = (Inr v, s')"
proof (cases "m s")
  case (Pair r t)
  with assms show ?thesis
    by (cases r) (auto simp: bnd_def intro: that)
qed

lemma cell_propagate_result:
  assumes "cell_propagate L r k s = (Inr a, s1)"
  shows "a < length (heap s1)
    \<and> (\<exists>a1 a2 a3 a4 a5 X Y zz e F.
          calls s1 \<noteq> [] \<and> last (calls s1) = Ev_propagate_in_z a1 a2 a3 a4 a5 X Y zz e k
        \<and> propagate_in_z L a1 a2 a3 a4 a5 X Y zz e k = Inr F
        \<and> heap s1 ! a = CBuf3 F)"
proof -
  let ?ev = "Ev_propagate_in_z (fst r) (fst (snd r)) (fst (snd (snd r)))
      (fst (snd (snd (snd r)))) (fst (snd (snd (snd (snd r)))))
      (fst (snd (snd (snd (snd (snd r)))))) (fst (snd (snd (snd (snd (snd (snd r)))))))
      (fst (snd (snd (snd (snd (snd (snd (snd r))))))))
      (snd (snd (snd (snd (snd (snd (snd (snd r)))))))) k"
  let ?res = "propagate_in_z L (fst r) (fst (snd r)) (fst (snd (snd r)))
      (fst (snd (snd (snd r)))) (fst (snd (snd (snd (snd r)))))
      (fst (snd (snd (snd (snd (snd r)))))) (fst (snd (snd (snd (snd (snd (snd r)))))))
      (fst (snd (snd (snd (snd (snd (snd (snd r))))))))
      (snd (snd (snd (snd (snd (snd (snd (snd r)))))))) k"
  from assms[unfolded cell_propagate_def case_prod_beta]
  obtain F t where c: "call ?ev ?res s = (Inr F, t)" and al: "alloc (CBuf3 F) t = (Inr a, s1)"
    by (rule bnd_InrE)
  from c have p: "?res = Inr F" and t: "calls t = calls s @ [?ev]"
    by (auto simp: call_def)
  from al have a: "a = length (heap t)" and s1: "heap s1 = heap t @ [CBuf3 F]" "calls s1 = calls t"
    by (auto simp: alloc_def)
  have "a < length (heap s1)" using a s1 by simp
  moreover have "calls s1 \<noteq> []" "last (calls s1) = ?ev" using s1 t by simp_all
  moreover have "heap s1 ! a = CBuf3 F" using a s1 by simp
  ultimately show ?thesis using p by blast
qed

lemma upto_propagate_result:
  assumes "upto_propagate L s = (Inr (a, z'), s1)"
  shows "a < length (heap s1)
    \<and> (\<exists>a1 a2 a3 a4 a5 X Y zz e k F.
          calls s1 \<noteq> [] \<and> last (calls s1) = Ev_propagate_in_z a1 a2 a3 a4 a5 X Y zz e k
        \<and> propagate_in_z L a1 a2 a3 a4 a5 X Y zz e k = Inr F
        \<and> heap s1 ! a = CBuf3 F)"
proof -
  from assms[unfolded upto_propagate_def seq_def case_prod_beta]
  obtain r k t where "cell_propagate L r k t = (Inr a, s1)"
    by (elim bnd_InrE) (auto simp: ret_def)
  from cell_propagate_result[OF this] show ?thesis by blast
qed

lemma script_after:
  "upto_propagate L s = (Inr (a, z'), s1) \<Longrightarrow> script L s = after_propagate L a z' s1"
  by (simp add: script_def bnd_def)

text \<open>
  C6. Whatever the library returns, the part of the script after line 143 leaves the buffer
  of \<^verbatim>\<open>Field\<close> as it finds it. So in every run that gets past line 143, the last call made
  up to there is \<^verbatim>\<open>propagate_in_z\<close>, the array \<open>F\<close> it returned is what \<^verbatim>\<open>Field\<close> refers to, and
  it still is when the run ends, normally or with an exception.
\<close>

theorem field_unchanged:
  "(\<forall>s. Field_ref < length (heap s) \<longrightarrow>
        Field_ref < length (heap (snd (after_propagate L Field_ref z s)))
      \<and> heap (snd (after_propagate L Field_ref z s)) ! Field_ref = heap s ! Field_ref)
   \<and> (\<forall>a z' s1. upto_propagate L init_state = (Inr (a, z'), s1) \<longrightarrow>
        script L init_state = after_propagate L a z' s1
      \<and> (\<exists>a1 a2 a3 a4 a5 X Y zz e k F.
            calls s1 \<noteq> [] \<and> last (calls s1) = Ev_propagate_in_z a1 a2 a3 a4 a5 X Y zz e k
          \<and> propagate_in_z L a1 a2 a3 a4 a5 X Y zz e k = Inr F
          \<and> heap s1 ! a = CBuf3 F
          \<and> heap (snd (script L init_state)) ! a = CBuf3 F))"
proof (intro conjI allI impI)
  fix s :: "'a state" assume "Field_ref < length (heap s)"
  with keeps_after_propagate[of Field_ref L z, unfolded keeps_def]
  show "Field_ref < length (heap (snd (after_propagate L Field_ref z s)))"
    and "heap (snd (after_propagate L Field_ref z s)) ! Field_ref = heap s ! Field_ref"
    by simp_all
next
  fix a z' s1 assume u: "upto_propagate L init_state = (Inr (a, z'), s1)"
  show sc: "script L init_state = after_propagate L a z' s1" using u by (rule script_after)
  from upto_propagate_result[OF u] obtain a1 a2 a3 a4 a5 X Y zz e k F where
    a: "a < length (heap s1)" and
    f: "calls s1 \<noteq> []" "last (calls s1) = Ev_propagate_in_z a1 a2 a3 a4 a5 X Y zz e k"
       "propagate_in_z L a1 a2 a3 a4 a5 X Y zz e k = Inr F" "heap s1 ! a = CBuf3 F"
    by blast
  from keeps_after_propagate[of a L z', unfolded keeps_def, rule_format, OF a] f(4)
  have "heap (snd (script L init_state)) ! a = CBuf3 F" by (simp add: sc)
  with f show "\<exists>a1 a2 a3 a4 a5 X Y zz e k F.
            calls s1 \<noteq> [] \<and> last (calls s1) = Ev_propagate_in_z a1 a2 a3 a4 a5 X Y zz e k
          \<and> propagate_in_z L a1 a2 a3 a4 a5 X Y zz e k = Inr F
          \<and> heap s1 ! a = CBuf3 F
          \<and> heap (snd (script L init_state)) ! a = CBuf3 F"
    by blast
qed

lemma upto_ok:
  "\<exists>s1. upto_propagate lib_ok init_state = (Inr (0, [0]), s1)"
proof -
  obtain b where b: "initial_field 1 1 1 [[1]] = Inr b" using initial_field_ok by blast
  have "fst (upto_propagate lib_ok init_state) = Inr (0, [0])"
    by (simp add: upto_propagate_def cell_imports_def cell_laser_def cell_grid_def
        cell_setup_def cell_propagate_def lib_ok_def init_state_def Let_def bnd_def seq_def
        call_def guard_def ret_def lift_def alloc_def mpl_def import_mod_def b z0_def zf_def)
  then show ?thesis by (cases "upto_propagate lib_ok init_state") auto
qed

theorem field_unchanged_witness:
  "(0 :: nat) < length (heap \<lparr>calls = ([] :: unit event list), heap = [CBuf3 [[[1, 2]]]]\<rparr>)
   \<and> heap (snd (after_propagate lib_ok 0 [0]
              \<lparr>calls = ([] :: unit event list), heap = [CBuf3 [[[1, 2]]]]\<rparr>)) ! 0
       = CBuf3 [[[1, 2]]]
   \<and> (\<exists>s1. upto_propagate lib_ok init_state = (Inr (0, [0]), s1))
   \<and> heap (snd (script lib_ok init_state)) ! 0 = CBuf3 [[3] # replicate 256 [3]]"
proof -
  let ?s = "\<lparr>calls = ([] :: unit event list), heap = [CBuf3 [[[1, 2]]]]\<rparr>"
  note f = field_unchanged[of 0 lib_ok "[0]"]
  have h: "(0 :: nat) < length (heap ?s)" by simp
  from f[THEN conjunct1, rule_format, OF h]
  have a: "heap (snd (after_propagate lib_ok 0 [0] ?s)) ! 0 = CBuf3 [[[1, 2]]]" by simp
  from upto_ok obtain s1 where u: "upto_propagate lib_ok init_state = (Inr (0, [0]), s1)" by blast
  from f[THEN conjunct2, rule_format, OF u]
  obtain a1 a2 a3 a4 a5 X Y zz e k F where
    p: "propagate_in_z lib_ok a1 a2 a3 a4 a5 X Y zz e k = Inr F"
    and q: "heap (snd (script lib_ok init_state)) ! 0 = CBuf3 F"
    by blast
  from p have "F = [[3] # replicate 256 [3]]" by (simp add: lib_ok_def)
  with q have b: "heap (snd (script lib_ok init_state)) ! 0 = CBuf3 [[3] # replicate 256 [3]]"
    by simp
  from upto_ok h a b show ?thesis by (intro conjI)
qed

subsection \<open>Exceptions\<close>





subsection \<open>The thresholded slices\<close>

lemma e_m2_eq: "e_m2 = exp (- 2)"
  by (simp add: e_m2_def powr_def)

lemma e_m2_pos: "0 < e_m2"
  by (simp add: e_m2_eq)

lemma e_m2_less_1: "e_m2 < 1"
  by (simp add: e_m2_eq)

lemma mask_pair_nth:
  assumes "0 \<le> tp" "i < length f"
  shows "mask_gt tp (mask_le tp f) ! i = (if f ! i > tp * e_m2 then 1 else 0)"
proof -
  have "0 \<le> tp * e_m2" using assms(1) e_m2_pos by simp
  then show ?thesis using assms(2)
    by (auto simp: mask_gt_def mask_le_def mask_assign_def)
qed

lemma length_intensity: "length (intensity F zi) = length F"
  by (simp add: intensity_def)

lemma length_thresh_col: "length (thresh_col F zi) = length F"
  by (simp add: thresh_col_def length_mask_gt length_mask_le length_intensity)

lemma intensity_nth: "i < length F \<Longrightarrow> intensity F zi ! i = (cmod (F ! i ! mid ! zi)) ^ 2"
  by (simp add: intensity_def)

lemma Max_intensity_nonneg:
  assumes "F \<noteq> []"
  shows "0 \<le> Max (set (intensity F zi))"
proof -
  from assms have "intensity F zi ! 0 \<in> set (intensity F zi)"
    by (simp add: length_intensity)
  then have "intensity F zi ! 0 \<le> Max (set (intensity F zi))" by simp
  moreover have "0 \<le> intensity F zi ! 0" using assms by (simp add: intensity_nth)
  ultimately show ?thesis by simp
qed

lemma thresh_col_nth:
  assumes "i < length F"
  shows "thresh_col F zi ! i =
    (if (cmod (F ! i ! mid ! zi)) ^ 2 > Max (set (intensity F zi)) * e_m2 then 1 else 0)"
proof -
  from assms have ne: "F \<noteq> []" by auto
  have "thresh_col F zi ! i =
      (if intensity F zi ! i > Max (set (intensity F zi)) * e_m2 then 1 else 0)"
    unfolding thresh_col_def
    by (rule mask_pair_nth[OF Max_intensity_nonneg[OF ne]]) (simp add: length_intensity assms)
  then show ?thesis by (simp add: intensity_nth[OF assms])
qed

lemma is_array3_row:
  "is_array3 d0 d1 d2 F \<Longrightarrow> p \<in> set F \<Longrightarrow> length p = d1 \<and> (\<forall>r \<in> set p. length r = d2)"
  by (auto simp: is_array3_def list_all_iff)

lemma view_col_array:
  assumes "is_array3 d0 d1 d2 F" "mid < d1" "zi < d2"
  shows "view_col F mid zi = Inr (map (\<lambda>p. p ! mid ! zi) F)"
proof -
  have "\<forall>p \<in> set F. mid < length p \<and> zi < length (p ! mid)"
  proof
    fix p assume p: "p \<in> set F"
    from is_array3_row[OF assms(1) p] assms(2) have l: "length p = d1" "p ! mid \<in> set p"
      by auto
    with is_array3_row[OF assms(1) p] have "length (p ! mid) = d2" by blast
    with l assms show "mid < length p \<and> zi < length (p ! mid)" by simp
  qed
  then show ?thesis by (simp add: view_col_def)
qed

lemma view_row_array:
  assumes "is_array3 d0 d1 d2 F" "mid < d1"
  shows "view_row F mid = Inr (map (\<lambda>p. p ! mid) F)"
proof -
  have "\<forall>p \<in> set F. mid < length p"
    using is_array3_row[OF assms(1)] assms(2) by auto
  then show ?thesis by (simp add: view_row_def)
qed

lemma shape_last_array:
  assumes "is_array3 d0 d1 d2 F" "0 < d0" "0 < d1"
  shows "shape_last F = d2"
proof -
  from assms obtain p ps where F: "F = p # ps" by (cases F) (auto simp: is_array3_def)
  with is_array3_row[OF assms(1), of p] have p: "length p = d1" "\<forall>r \<in> set p. length r = d2"
    by auto
  with assms(3) obtain r rs where "p = r # rs" by (cases p) auto
  with p F show ?thesis by (simp add: shape_last_def)
qed

lemma thresh_iter_run:
  assumes F: "heap s ! Field_ref = CBuf3 F" "Field_ref < length (heap s)"
    and T: "heap s ! thresh = RBuf2 T" "thresh < length (heap s)"
    and arr: "is_array3 d0 d1 d2 F" "0 < d0" "mid < d1" "zi < d2"
    and Tsh: "length T = d0" "\<forall>r \<in> set T. length r = d2"
  shows "thresh_iter Field_ref thresh zi s =
     (Inr (), s\<lparr>heap := (heap s @ [CBuf1 (map (\<lambda>p. p ! mid ! zi) F), RBuf1 (thresh_col F zi)])
                  [thresh := RBuf2 (map2 (\<lambda>r v. r[zi := v]) T (thresh_col F zi))]\<rparr>)"
proof -
  have v: "view_col F mid zi = Inr (map (\<lambda>p. p ! mid ! zi) F)"
    using arr(1,3,4) by (rule view_col_array)
  have len: "length F = d0" using arr(1) by (simp add: is_array3_def)
  with arr(2) have ne: "F \<noteq> []" by auto
  have am: "amax (intensity F zi) = Inr (Max (set (intensity F zi)))"
    using ne by (simp add: amax_def intensity_def)
  have sc: "set_col T zi (thresh_col F zi) = Inr (map2 (\<lambda>r v. r[zi := v]) T (thresh_col F zi))"
    using Tsh arr(4) len by (auto simp: set_col_def length_thresh_col)
  have i: "map (\<lambda>c. (cmod c) ^ 2) (map (\<lambda>p. p ! mid ! zi) F) = intensity F zi"
    by (simp add: intensity_def)
  have tc: "mask_gt (Max (set (intensity F zi))) (mask_le (Max (set (intensity F zi))) (intensity F zi))
      = thresh_col F zi" by (simp add: thresh_col_def)
  show ?thesis
    using F T
    by (simp add: thresh_iter_def bnd_def seq_def load_c3_def load_c1_def load_r1_def
        load_r2_def load_def lift_def alloc_def store_at_def ret_def v nth_append i am tc sc
        list_update_append del: map_map)
qed

lemma length_put_col: "length T = length F \<Longrightarrow> length (put_col F T zi) = length T"
  by (simp add: put_col_def length_thresh_col)

lemma put_col_row_length:
  "length T = length F \<Longrightarrow> i < length T \<Longrightarrow> length (put_col F T zi ! i) = length (T ! i)"
  by (simp add: put_col_def length_thresh_col)

lemma put_col_rows:
  assumes "length T = length F" "\<forall>r \<in> set T. length r = d2"
  shows "\<forall>r \<in> set (put_col F T zi). length r = d2"
proof
  fix r assume "r \<in> set (put_col F T zi)"
  then obtain i where i: "i < length (put_col F T zi)" and r: "r = put_col F T zi ! i"
    by (auto simp: in_set_conv_nth)
  from i assms(1) have i': "i < length T" by (simp add: length_put_col)
  with assms(2) have "length (T ! i) = d2" by simp
  with put_col_row_length[OF assms(1) i'] r show "length r = d2" by simp
qed

lemma put_col_nth:
  assumes "length T = length F" "i < length T" "k < length (T ! i)"
  shows "put_col F T zi ! i ! k = (if k = zi then thresh_col F zi ! i else T ! i ! k)"
  using assms by (simp add: put_col_def length_thresh_col nth_list_update)

lemma foldl_put_col:
  assumes "length T = length F" "\<forall>r \<in> set T. length r = d2"
  shows "length (foldl (put_col F) T js) = length F
    \<and> (\<forall>r \<in> set (foldl (put_col F) T js). length r = d2)
    \<and> (\<forall>i < length F. \<forall>k < d2.
          foldl (put_col F) T js ! i ! k = (if k \<in> set js then thresh_col F k ! i else T ! i ! k))"
  using assms
proof (induction js arbitrary: T)
  case Nil
  then show ?case by simp
next
  case (Cons j js)
  let ?T = "put_col F T j"
  have l: "length ?T = length F" using Cons.prems(1) by (simp add: length_put_col)
  have r: "\<forall>r \<in> set ?T. length r = d2" using Cons.prems by (rule put_col_rows)
  note ih = Cons.IH[OF l r]
  have "\<forall>i < length F. \<forall>k < d2.
          foldl (put_col F) ?T js ! i ! k = (if k \<in> set (j # js) then thresh_col F k ! i else T ! i ! k)"
  proof (intro allI impI)
    fix i k assume i: "i < length F" and k: "k < d2"
    from i Cons.prems have iT: "i < length T" and kT: "k < length (T ! i)" using k by simp_all
    from ih i k have "foldl (put_col F) ?T js ! i ! k
        = (if k \<in> set js then thresh_col F k ! i else ?T ! i ! k)" by blast
    also have "?T ! i ! k = (if k = j then thresh_col F j ! i else T ! i ! k)"
      using Cons.prems(1) iT kT by (rule put_col_nth)
    finally show "foldl (put_col F) ?T js ! i ! k
        = (if k \<in> set (j # js) then thresh_col F k ! i else T ! i ! k)" by auto
  qed
  with ih show ?case by simp
qed

lemma thresh_loop_run:
  assumes arr: "is_array3 d0 d1 d2 F" "0 < d0" "mid < d1"
    and js: "\<forall>zi \<in> set js. zi < d2"
    and F: "heap s ! Field_ref = CBuf3 F" "Field_ref < length (heap s)"
    and T: "heap s ! thresh = RBuf2 T" "thresh < length (heap s)"
    and Tsh: "length T = d0" "\<forall>r \<in> set T. length r = d2"
  shows "\<exists>s'. for_loop js (thresh_iter Field_ref thresh) s = (Inr (), s')
    \<and> heap s' ! Field_ref = CBuf3 F \<and> Field_ref < length (heap s')
    \<and> heap s' ! thresh = RBuf2 (foldl (put_col F) T js) \<and> thresh < length (heap s')
    \<and> calls s' = calls s"
  using js F T Tsh
proof (induction js arbitrary: s T)
  case Nil
  then show ?case by (simp add: ret_def)
next
  case (Cons j js)
  let ?s1 = "s\<lparr>heap := (heap s @ [CBuf1 (map (\<lambda>p. p ! mid ! j) F), RBuf1 (thresh_col F j)])
                  [thresh := RBuf2 (put_col F T j)]\<rparr>"
  have len: "length F = d0" using arr(1) by (simp add: is_array3_def)
  from Cons.prems(1) have j: "j < d2" and js': "\<forall>zi \<in> set js. zi < d2" by simp_all
  have step: "thresh_iter Field_ref thresh j s = (Inr (), ?s1)"
    unfolding put_col_def
    using Cons.prems(2,3,4,5) arr j Cons.prems(6,7) by (rule thresh_iter_run)
  from Cons.prems(2,4) have ne: "Field_ref \<noteq> thresh" by auto
  have F1: "heap ?s1 ! Field_ref = CBuf3 F" "Field_ref < length (heap ?s1)"
    using Cons.prems(2,3) ne by (simp_all add: nth_append)
  have T1: "heap ?s1 ! thresh = RBuf2 (put_col F T j)" "thresh < length (heap ?s1)"
    using Cons.prems(5) by simp_all
  have l1: "length (put_col F T j) = d0" using Cons.prems(6) len by (simp add: length_put_col)
  have r1: "\<forall>r \<in> set (put_col F T j). length r = d2"
    using Cons.prems(6,7) len by (intro put_col_rows) simp_all
  from Cons.IH[OF js' F1 T1 l1 r1] obtain s' where
    s': "for_loop js (thresh_iter Field_ref thresh) ?s1 = (Inr (), s')"
      "heap s' ! Field_ref = CBuf3 F" "Field_ref < length (heap s')"
      "heap s' ! thresh = RBuf2 (foldl (put_col F) (put_col F T j) js)" "thresh < length (heap s')"
      "calls s' = calls ?s1"
    by blast
  from step s'(1) have "for_loop (j # js) (thresh_iter Field_ref thresh) s = (Inr (), s')"
    by (simp add: bnd_def)
  with s' show ?case by simp
qed

lemma zeros_like_shape:
  assumes "is_array3 d0 d1 d2 F" "mid < d1"
  shows "length (zeros_like (map (\<lambda>p. p ! mid) F)) = d0
    \<and> (\<forall>r \<in> set (zeros_like (map (\<lambda>p. p ! mid) F)). length r = d2)"
proof -
  have "\<forall>p \<in> set F. length (p ! mid) = d2"
  proof
    fix p assume p: "p \<in> set F"
    from is_array3_row[OF assms(1) p] assms(2) have "p ! mid \<in> set p" by auto
    with is_array3_row[OF assms(1) p] show "length (p ! mid) = d2" by blast
  qed
  moreover have "length F = d0" using assms(1) by (simp add: is_array3_def)
  ultimately show ?thesis by (auto simp: zeros_like_def)
qed

lemma thresh_block_run:
  assumes arr: "is_array3 d0 d1 d2 F" "0 < d0" "mid < d1"
    and F: "heap s ! Field_ref = CBuf3 F" "Field_ref < length (heap s)"
  shows "\<exists>s'. thresh_block Field_ref s = (Inr (length (heap s)), s')
    \<and> heap s' ! Field_ref = CBuf3 F
    \<and> heap s' ! length (heap s)
        = RBuf2 (foldl (put_col F) (zeros_like (map (\<lambda>p. p ! mid) F)) [0..<d2])
    \<and> calls s' = calls s"
proof -
  let ?Z = "zeros_like (map (\<lambda>p. p ! mid) F)"
  let ?s1 = "s\<lparr>heap := heap s @ [RBuf2 ?Z]\<rparr>"
  have vr: "view_row F mid = Inr (map (\<lambda>p. p ! mid) F)" using arr(1,3) by (rule view_row_array)
  have d1: "0 < d1" using arr(3) by simp
  have sl: "shape_last F = d2" using arr(1,2) d1 by (rule shape_last_array)
  have js: "\<forall>zi \<in> set [0..<d2]. zi < d2" by simp
  have F1: "heap ?s1 ! Field_ref = CBuf3 F" "Field_ref < length (heap ?s1)"
    using F by (simp_all add: nth_append)
  have T1: "heap ?s1 ! length (heap s) = RBuf2 ?Z" "length (heap s) < length (heap ?s1)"
    by simp_all
  note z = zeros_like_shape[OF arr(1,3)]
  from thresh_loop_run[OF arr js F1 T1 z[THEN conjunct1] z[THEN conjunct2]]
  obtain s' where s': "for_loop [0..<d2] (thresh_iter Field_ref (length (heap s))) ?s1 = (Inr (), s')"
    "heap s' ! Field_ref = CBuf3 F"
    "heap s' ! length (heap s) = RBuf2 (foldl (put_col F) ?Z [0..<d2])"
    "calls s' = calls ?s1"
    by blast
  have "thresh_block Field_ref s = (Inr (length (heap s)), s')"
    using F s'(1)
    by (simp add: thresh_block_def bnd_def seq_def load_c3_def load_def lift_def alloc_def
        ret_def vr sl nth_append)
  with s' show ?thesis by simp
qed

text \<open>
  C4, as amended. Let \<^verbatim>\<open>Field\<close> be an array \<open>F\<close> of shape \<open>d0\<close> by \<open>d1\<close> by \<open>d2\<close> with
  \<open>d0 > 0\<close> and \<open>mid < d1\<close>. Then lines 180 to 187 return normally, \<^verbatim>\<open>Field\<close> is as before,
  and \<^verbatim>\<open>thresh\<close> is a \<open>d0\<close> by \<open>d2\<close> array in which every entry is 0 or 1; the entry
  \<open>(i, zi)\<close> is 1 exactly when the intensity \<open>|F[i, mid, zi]|\<^sup>2\<close> is greater than \<open>exp (- 2)\<close>
  times the largest intensity of the slice \<open>zi\<close>, so an entry equal to the threshold is 0.
  This is for the two masked assignments in the order of the source.
\<close>

theorem thresh_binary:
  assumes "is_array3 d0 d1 d2 F" "0 < d0" "mid < d1"
    and "heap s ! Field_ref = CBuf3 F" "Field_ref < length (heap s)"
  shows "\<exists>thresh s' T.
      thresh_block Field_ref s = (Inr thresh, s')
    \<and> heap s' ! Field_ref = CBuf3 F
    \<and> heap s' ! thresh = RBuf2 T
    \<and> length T = d0
    \<and> e_m2 = exp (- 2)
    \<and> (\<forall>zi < d2. length (intensity F zi) = d0
          \<and> (\<forall>i < d0. intensity F zi ! i = (cmod (F ! i ! mid ! zi)) ^ 2))
    \<and> (\<forall>i < d0. length (T ! i) = d2
          \<and> (\<forall>zi < d2.
                (T ! i ! zi = 0 \<or> T ! i ! zi = 1)
              \<and> (T ! i ! zi = 1 \<longleftrightarrow>
                   (cmod (F ! i ! mid ! zi)) ^ 2 > e_m2 * Max (set (intensity F zi)))
              \<and> ((cmod (F ! i ! mid ! zi)) ^ 2 = e_m2 * Max (set (intensity F zi))
                   \<longrightarrow> T ! i ! zi = 0)))"
proof -
  let ?Z = "zeros_like (map (\<lambda>p. p ! mid) F)"
  let ?T = "foldl (put_col F) ?Z [0..<d2]"
  have len: "length F = d0" using assms(1) by (simp add: is_array3_def)
  from thresh_block_run[OF assms] obtain s' where
    r: "thresh_block Field_ref s = (Inr (length (heap s)), s')"
    and f: "heap s' ! Field_ref = CBuf3 F"
    and t: "heap s' ! length (heap s) = RBuf2 ?T"
    by blast
  note z = zeros_like_shape[OF assms(1,3)]
  have zl: "length ?Z = length F" using z len by simp
  note fp = foldl_put_col[OF zl z[THEN conjunct2], of "[0..<d2]"]
  have lT: "length ?T = d0" using fp len by simp
  have rows: "\<forall>r \<in> set ?T. length r = d2" using fp by blast
  have val: "?T ! i ! zi = thresh_col F zi ! i" if "i < d0" "zi < d2" for i zi
    using fp that len by simp
  have int: "\<forall>zi < d2. length (intensity F zi) = d0
          \<and> (\<forall>i < d0. intensity F zi ! i = (cmod (F ! i ! mid ! zi)) ^ 2)"
    using len by (simp add: length_intensity intensity_nth)
  have ent: "\<forall>i < d0. length (?T ! i) = d2
          \<and> (\<forall>zi < d2.
                (?T ! i ! zi = 0 \<or> ?T ! i ! zi = 1)
              \<and> (?T ! i ! zi = 1 \<longleftrightarrow>
                   (cmod (F ! i ! mid ! zi)) ^ 2 > e_m2 * Max (set (intensity F zi)))
              \<and> ((cmod (F ! i ! mid ! zi)) ^ 2 = e_m2 * Max (set (intensity F zi))
                   \<longrightarrow> ?T ! i ! zi = 0))"
  proof (intro allI impI conjI)
    fix i assume i: "i < d0"
    with lT rows show "length (?T ! i) = d2" by simp
    fix zi assume zi: "zi < d2"
    from i len have iF: "i < length F" by simp
    note c = thresh_col_nth[OF iF, of zi]
    show "?T ! i ! zi = 0 \<or> ?T ! i ! zi = 1"
      unfolding val[OF i zi] c by simp
    show "?T ! i ! zi = 1 \<longleftrightarrow> (cmod (F ! i ! mid ! zi)) ^ 2 > e_m2 * Max (set (intensity F zi))"
      unfolding val[OF i zi] c by (simp add: mult.commute)
    assume "(cmod (F ! i ! mid ! zi)) ^ 2 = e_m2 * Max (set (intensity F zi))"
    then show "?T ! i ! zi = 0"
      unfolding val[OF i zi] c by (simp add: mult.commute)
  qed
  show ?thesis
    using r f t lT e_m2_eq int ent by (intro exI conjI)
qed

lemma e_m2_ge_ninth: "1 / 9 \<le> e_m2"
proof -
  have "exp (2 :: real) = exp 1 * exp 1" by (simp add: exp_add[symmetric])
  also have "\<dots> \<le> 3 * 3" by (intro mult_mono exp_le) simp_all
  finally have "exp (2 :: real) \<le> 9" by simp
  then have "1 / 9 \<le> 1 / exp (2 :: real)" by (intro divide_left_mono) simp_all
  then show ?thesis by (simp add: e_m2_eq exp_minus inverse_eq_divide)
qed

theorem thresh_binary_witness:
  "is_array3 2 257 1 [replicate 256 [0] @ [[3]], replicate 256 [0] @ [[1 :: complex]]]
   \<and> mid < 257
   \<and> (\<exists>thresh s' T.
         thresh_block 0
           \<lparr>calls = ([] :: unit event list),
            heap = [CBuf3 [replicate 256 [0] @ [[3]], replicate 256 [0] @ [[1]]]]\<rparr>
           = (Inr thresh, s')
       \<and> heap s' ! thresh = RBuf2 T \<and> T ! 0 ! 0 = 1 \<and> T ! 1 ! 0 = 0)"
proof -
  let ?F = "[replicate 256 [0] @ [[3]], replicate 256 [0] @ [[1 :: complex]]]"
  let ?s = "\<lparr>calls = ([] :: unit event list), heap = [CBuf3 ?F]\<rparr>"
  have a: "is_array3 2 257 1 ?F" by (simp add: is_array3_def list_all_iff)
  have d: "(0 :: nat) < 2" by simp
  have m: "mid < 257" by (simp add: mid_val)
  have h: "heap ?s ! 0 = CBuf3 ?F" "0 < length (heap ?s)" by simp_all
  from thresh_binary[OF a d m h] obtain thresh s' T where
    r: "thresh_block 0 ?s = (Inr thresh, s')" and t: "heap s' ! thresh = RBuf2 T"
    and e: "\<forall>i < 2. length (T ! i) = 1
          \<and> (\<forall>zi < 1.
                (T ! i ! zi = 0 \<or> T ! i ! zi = 1)
              \<and> (T ! i ! zi = 1 \<longleftrightarrow>
                   (cmod (?F ! i ! mid ! zi)) ^ 2 > e_m2 * Max (set (intensity ?F zi)))
              \<and> ((cmod (?F ! i ! mid ! zi)) ^ 2 = e_m2 * Max (set (intensity ?F zi))
                   \<longrightarrow> T ! i ! zi = 0))"
    by blast
  have i: "intensity ?F 0 = [9, 1]"
    by (simp add: intensity_def mid_val nth_append)
  have mx: "Max (set (intensity ?F 0)) = 9" by (simp add: i)
  have f0: "(replicate 256 [0] @ [[3 :: complex]]) ! mid ! 0 = 3"
    and f1: "(replicate 256 [0] @ [[1 :: complex]]) ! mid ! 0 = 1"
    by (simp_all add: mid_val nth_append)
  note e0 = e[rule_format, of 0, THEN conjunct2, rule_format, of 0]
  note e1 = e[rule_format, of 1, THEN conjunct2, rule_format, of 0]
  have "e_m2 * 9 < 9" using e_m2_less_1 by simp
  with e0 have t0: "T ! 0 ! 0 = 1" by (simp add: mx f0)
  have "\<not> 1 > e_m2 * 9" using e_m2_ge_ninth by simp
  with e1 have t1: "T ! 1 ! 0 = 0" by (auto simp: mx f1)
  from r t t0 t1 have "\<exists>thresh s' T. thresh_block 0 ?s = (Inr thresh, s')
       \<and> heap s' ! thresh = RBuf2 T \<and> T ! 0 ! 0 = 1 \<and> T ! 1 ! 0 = 0"
    by blast
  with a m show ?thesis by (intro conjI)
qed

text \<open>
  C4, as stated, claims the same result whatever the order of lines 185 and 186. With the
  slice \<open>[10]\<close> the intensity and its maximum are 100 and the threshold \<open>100 * exp (- 2)\<close> lies
  between 1 and 100: in the order of the source the entry becomes 1, in the other order the
  assignment of 1.0 is undone by the assignment of 0.0.
\<close>

theorem mask_order_counterexample:
  "(cmod 10) ^ 2 = (100 :: real) \<and> amax [100] = Inr 100 \<and> 100 > 100 * e_m2
   \<and> mask_gt 100 (mask_le 100 [100]) = [1]
   \<and> mask_le 100 (mask_gt 100 [100]) = [0]"
proof -
  have lt: "100 * e_m2 < 100" using e_m2_less_1 by simp
  have ge: "1 \<le> 100 * e_m2" using e_m2_ge_ninth by simp
  have a: "(cmod 10) ^ 2 = (100 :: real)" by simp
  have b: "amax [100] = Inr 100" by (simp add: amax_def)
  have c: "mask_gt 100 (mask_le 100 [100]) = [1]"
    using lt by (simp add: mask_gt_def mask_le_def mask_assign_def)
  have d: "mask_le 100 (mask_gt 100 [100]) = [0]"
    using lt ge by (simp add: mask_gt_def mask_le_def mask_assign_def)
  from a b lt c d show ?thesis by (intro conjI)
qed

subsection \<open>The transverse grid in float64\<close>

text \<open>Rounding to nearest, ties to even: error, sign, scaling by a power of two, evaluation.\<close>

lemma rne_err: "\<bar>of_int (rne y) - y\<bar> \<le> 1 / 2"
proof -
  have "of_int \<lfloor>y\<rfloor> \<le> y" "y < of_int \<lfloor>y\<rfloor> + 1" by linarith+
  then show ?thesis by (auto simp: rne_def Let_def abs_le_iff)
qed

lemma rne_minus: "rne (- y) = - rne y"
proof (cases "y = of_int \<lfloor>y\<rfloor>")
  case True
  then obtain k :: int where y: "y = of_int k" by blast
  have "\<lfloor>- (of_int k :: real)\<rfloor> = - k" by (metis floor_of_int of_int_minus)
  then show ?thesis by (simp add: rne_def Let_def y)
next
  case False
  let ?f = "\<lfloor>y\<rfloor>"
  have lo: "of_int ?f < y" using False by (metis of_int_floor_le order_less_le)
  have hi: "y < of_int ?f + 1" by linarith
  have fm: "\<lfloor>- y\<rfloor> = - ?f - 1"
  proof (rule floor_unique)
    show "of_int (- ?f - 1) \<le> - y"
    proof -
      have "of_int (- ?f - 1) = - of_int ?f - (1::real)" by simp
      with hi show ?thesis by linarith
    qed
    show "- y < of_int (- ?f - 1) + 1" using lo by simp
  qed
  show ?thesis
    using lo hi by (auto simp: rne_def Let_def fm)
qed

lemma fl_0: "fl 0 = 0"
  by (simp add: fl_def)

lemma fl_minus: "fl (- x) = - fl x"
  by (simp add: fl_def Let_def rne_minus)

lemma expo_bounds:
  assumes "x \<noteq> 0"
  shows "2 powr of_int \<lfloor>log 2 \<bar>x\<bar>\<rfloor> \<le> \<bar>x\<bar>"
proof -
  have "of_int \<lfloor>log 2 \<bar>x\<bar>\<rfloor> \<le> log 2 \<bar>x\<bar>" by simp
  then have "2 powr of_int \<lfloor>log 2 \<bar>x\<bar>\<rfloor> \<le> 2 powr log 2 \<bar>x\<bar>" by (simp add: powr_le_cancel_iff)
  also have "\<dots> = \<bar>x\<bar>" using assms by simp
  finally show ?thesis .
qed

lemma fl_err: "\<bar>fl x - x\<bar> \<le> \<bar>x\<bar> / 2 ^ 53"
proof (cases "x = 0")
  case True
  then show ?thesis by (simp add: fl_0)
next
  case False
  define e where "e = \<lfloor>log 2 \<bar>x\<bar>\<rfloor> - 52"
  define p where "p = 2 powr (of_int e :: real)"
  have p: "0 < p" by (simp add: p_def)
  have f: "fl x = of_int (rne (x / p)) * p" using False by (simp add: fl_def Let_def e_def p_def)
  have "fl x - x = (of_int (rne (x / p)) - x / p) * p" using p by (simp add: f field_simps)
  then have "\<bar>fl x - x\<bar> = \<bar>of_int (rne (x / p)) - x / p\<bar> * p" using p by (simp add: abs_mult)
  also have "\<dots> \<le> (1 / 2) * p" using rne_err[of "x / p"] p by (intro mult_right_mono) simp_all
  also have "\<dots> = 2 powr of_int \<lfloor>log 2 \<bar>x\<bar>\<rfloor> / 2 ^ 53"
  proof -
    have "p = 2 powr (of_int \<lfloor>log 2 \<bar>x\<bar>\<rfloor> - 52)" by (simp add: p_def e_def)
    also have "\<dots> = 2 powr of_int \<lfloor>log 2 \<bar>x\<bar>\<rfloor> / 2 powr 52" by (simp add: powr_diff)
    finally show ?thesis by simp
  qed
  also have "\<dots> \<le> \<bar>x\<bar> / 2 ^ 53" using expo_bounds[OF False] by (simp add: divide_right_mono)
  finally show ?thesis .
qed

lemma fl_scale: "fl (x * 2 powr of_int k) = fl x * 2 powr of_int k"
proof (cases "x = 0")
  case True
  then show ?thesis by (simp add: fl_0)
next
  case False
  have "log 2 \<bar>x * 2 powr of_int k\<bar> = log 2 \<bar>x\<bar> + of_int k"
    using False by (simp add: abs_mult log_mult)
  then have e: "\<lfloor>log 2 \<bar>x * 2 powr of_int k\<bar>\<rfloor> = \<lfloor>log 2 \<bar>x\<bar>\<rfloor> + k" by simp
  have q: "x * 2 powr of_int k / 2 powr (of_int (\<lfloor>log 2 \<bar>x\<bar>\<rfloor> + k - 52))
      = x / 2 powr (of_int (\<lfloor>log 2 \<bar>x\<bar>\<rfloor> - 52))"
    by (simp add: powr_diff powr_add)
  have r: "2 powr (of_int (\<lfloor>log 2 \<bar>x\<bar>\<rfloor> + k - 52) :: real)
      = 2 powr (of_int (\<lfloor>log 2 \<bar>x\<bar>\<rfloor> - 52)) * 2 powr of_int k"
    by (simp add: powr_diff powr_add)
  show ?thesis
    using False by (simp only: fl_def Let_def e q r) simp
qed

lemma fl_times_512: "fl (x * 512) = fl x * 512"
  using fl_scale[of x 9] by simp

lemma fl_half: "fl (x / 2) = fl x / 2"
  using fl_scale[of x "- 1"] by (simp add: powr_minus field_simps)

lemma fl_pos: "0 < x \<Longrightarrow> 0 < fl x"
proof -
  assume x: "0 < x"
  have a: "\<bar>fl x - x\<bar> \<le> x / 2 ^ 53" using fl_err[of x] x by simp
  have b: "x / 2 ^ 53 < x" using x by (simp add: field_simps)
  from a b show ?thesis by linarith
qed

lemma fl_eq_0_iff: "fl x = 0 \<longleftrightarrow> x = 0"
proof
  assume z: "fl x = 0"
  show "x = 0"
  proof (rule ccontr)
    assume "x \<noteq> 0"
    then consider "0 < x" | "0 < - x" by linarith
    then show False
    proof cases
      case 1
      from fl_pos[OF 1] z show False by simp
    next
      case 2
      from fl_pos[OF 2] z show False by (simp add: fl_minus)
    qed
  qed
qed (simp add: fl_0)

lemma fl_eval:
  fixes k :: nat
  assumes "2 ^ 52 \<le> \<bar>x\<bar> * 2 ^ k" "\<bar>x\<bar> * 2 ^ k < 2 ^ 53"
  shows "fl x = of_int (rne (x * 2 ^ k)) / 2 ^ k"
proof -
  from assms(1) have x0: "x \<noteq> 0" by auto
  have pk: "(2::real) ^ k = 2 powr of_int (int k)" by (simp add: powr_realpow)
  have lo: "2 powr (52 - of_int (int k)) \<le> \<bar>x\<bar>"
  proof -
    have "2 powr (52 - of_int (int k)) = 2 ^ 52 / (2::real) ^ k"
      by (simp add: powr_diff pk)
    also have "\<dots> \<le> \<bar>x\<bar>" using assms(1) by (simp add: field_simps)
    finally show ?thesis .
  qed
  have hi: "\<bar>x\<bar> < 2 powr (53 - of_int (int k))"
  proof -
    have "\<bar>x\<bar> < 2 ^ 53 / (2::real) ^ k" using assms(2) by (simp add: field_simps)
    also have "\<dots> = 2 powr (53 - of_int (int k))" by (simp add: powr_diff pk)
    finally show ?thesis .
  qed
  have "\<lfloor>log 2 \<bar>x\<bar>\<rfloor> = 52 - int k"
  proof (rule floor_unique)
    show "of_int (52 - int k) \<le> log 2 \<bar>x\<bar>"
      using lo x0 by (simp add: le_log_iff)
    show "log 2 \<bar>x\<bar> < of_int (52 - int k) + 1"
      using hi x0 by (simp add: log_less_iff)
  qed
  then have e: "\<lfloor>log 2 \<bar>x\<bar>\<rfloor> - 52 = - int k" by simp
  have p: "2 powr (- real k) = 1 / 2 ^ k"
    by (simp add: powr_minus powr_realpow inverse_eq_divide)
  show ?thesis using x0 by (simp add: fl_def Let_def e p)
qed

lemma fl_id_1: "fl 1 = 1"
  by (subst fl_eval[where k = 52]) (simp_all add: rne_def Let_def)

lemma fl_um_1e6: "fl um_1e6 = um_1e6"
  unfolding um_1e6_def by (subst fl_eval[where k = 72]) (simp_all add: rne_def Let_def)

lemma linspace64_length: "length (linspace64 a b n) = n"
  by (cases "1 < n") (auto simp: linspace64_def Let_def)

lemma linspace64_nth:
  assumes "1 < n" "i < n - 1" "fl (fl (b - a) / real (n - 1)) \<noteq> 0"
  shows "linspace64 a b n ! i = fl (fl (real i * fl (fl (b - a) / real (n - 1))) + a)"
proof -
  from assms have "i < n" by simp
  with assms show ?thesis by (simp add: linspace64_def Let_def nth_append nth_butlast)
qed

lemma linspace64_last:
  assumes "1 < n"
  shows "linspace64 a b n ! (n - 1) = b"
  using assms by (simp add: linspace64_def Let_def nth_append)

lemma res64_id: "fl u = u \<Longrightarrow> res64 u = u"
  by (simp add: res64_def)

lemma fl_512: "fl u = u \<Longrightarrow> fl (512 * u) = 512 * u"
  using fl_times_512[of u] by (simp add: mult.commute)

lemma fl_256: "fl u = u \<Longrightarrow> fl (256 * u) = 256 * u"
  using fl_scale[of u 8] by (simp add: mult.commute)

lemma x64_start:
  assumes "fl u = u"
  shows "fl (fl (- res64 u * real n_pts) / 2) = - (256 * u)"
proof -
  have "fl (- res64 u * real n_pts) = fl (- (512 * u))"
    by (simp add: res64_id[OF assms] n_pts_def mult.commute)
  also have "\<dots> = - (512 * u)" by (simp only: fl_minus fl_512[OF assms])
  finally have a: "fl (- res64 u * real n_pts) = - (512 * u)" .
  have "fl (- (512 * u) / 2) = fl (- (256 * u))" by simp
  also have "\<dots> = - (256 * u)" by (simp only: fl_minus fl_256[OF assms])
  finally have b: "fl (- (512 * u) / 2) = - (256 * u)" .
  show ?thesis by (simp only: a b)
qed

lemma x64_stop:
  assumes "fl u = u"
  shows "fl (fl (res64 u * real n_pts) / 2) = 256 * u"
proof -
  have "fl (res64 u * real n_pts) = fl (512 * u)"
    by (simp add: res64_id[OF assms] n_pts_def mult.commute)
  also have "\<dots> = 512 * u" by (rule fl_512[OF assms])
  finally have a: "fl (res64 u * real n_pts) = 512 * u" .
  have "fl (512 * u / 2) = fl (256 * u)" by simp
  also have "\<dots> = 256 * u" by (rule fl_256[OF assms])
  finally have b: "fl (512 * u / 2) = 256 * u" .
  show ?thesis by (simp only: a b)
qed

lemma x64_delta:
  assumes "fl u = u"
  shows "fl (256 * u - - (256 * u)) = 512 * u"
proof -
  have "fl (256 * u - - (256 * u)) = fl (512 * u)" by simp
  also have "\<dots> = 512 * u" by (rule fl_512[OF assms])
  finally show ?thesis .
qed

lemma len_x64: "length (x_grid64 u) = n_pts"
  by (simp add: x_grid64_def linspace64_length)

lemma x64_nth:
  assumes u: "fl u = u" "0 < u" and i: "i < 511"
  shows "x_grid64 u ! i = fl (fl (real i * fl (512 * u / 511)) + - (256 * u))"
proof -
  have "0 < 512 * u / 511" using u(2) by simp
  then have "0 < fl (512 * u / 511)" by (rule fl_pos)
  then have nz: "fl (fl (256 * u - - (256 * u)) / real (512 - 1)) \<noteq> 0"
    by (simp only: x64_delta[OF u(1)]) simp
  have "x_grid64 u ! i = linspace64 (- (256 * u)) (256 * u) 512 ! i"
    by (simp only: x_grid64_def, simp only: x64_start[OF u(1)] x64_stop[OF u(1)],
        simp only: n_pts_def)
  also have "\<dots> = fl (fl (real i * fl (fl (256 * u - - (256 * u)) / real (512 - 1))) + - (256 * u))"
    using i nz by (intro linspace64_nth) simp_all
  also have "\<dots> = fl (fl (real i * fl (512 * u / 511)) + - (256 * u))"
    by (simp only: x64_delta[OF u(1)]) simp
  finally show ?thesis .
qed

lemma x64_last:
  assumes u: "fl u = u"
  shows "x_grid64 u ! 511 = 256 * u"
proof -
  have "x_grid64 u ! 511 = linspace64 (- (256 * u)) (256 * u) 512 ! (512 - 1)"
    by (simp only: x_grid64_def, simp only: x64_start[OF u] x64_stop[OF u],
        simp only: n_pts_def) simp
  also have "\<dots> = 256 * u" by (rule linspace64_last) simp
  finally show ?thesis .
qed

lemma x64_first:
  assumes u: "fl u = u" "0 < u"
  shows "x_grid64 u ! 0 = - (256 * u)"
proof -
  have "x_grid64 u ! 0 = fl (fl (real 0 * fl (512 * u / 511)) + - (256 * u))"
    by (rule x64_nth[OF u]) simp
  also have "\<dots> = fl (- (256 * u))" by (simp add: fl_0)
  also have "\<dots> = - (256 * u)" by (simp only: fl_minus fl_256[OF u(1)])
  finally show ?thesis .
qed

text \<open>
  The rounding error of one sample: a float64 sample is within \<open>2\<^sup>-\<^sup>4\<^sup>2\<close> of the unit from the
  exact value \<open>(i * 512 / 511 - 256) * u\<close>.
\<close>

lemma x64_err_inner:
  assumes u: "fl u = u" "0 < u" and i: "i < 511"
  shows "\<bar>x_grid64 u ! i - (real i * (512 * u / 511) - 256 * u)\<bar> \<le> 1282 * (u / 2 ^ 53)"
proof -
  define d where "d = u / 2 ^ 53"
  define E where "E = 512 * u / 511"
  define s where "s = fl E"
  define r where "r = real i"
  define t where "t = fl (r * s)"
  define v where "v = t + - (256 * u)"
  have d: "0 < d" "u = 9007199254740992 * d" using u(2) by (simp_all add: d_def)
  have E: "0 < E" "511 * E = 512 * u" using u(2) by (simp_all add: E_def)
  have r: "0 \<le> r" "r \<le> 511" using i by (simp_all add: r_def)
  have Ed: "E / 2 ^ 53 \<ge> 0" "511 * (E / 2 ^ 53) = 512 * d" using E by (simp_all add: d_def E_def)
  have h1: "\<bar>s - E\<bar> \<le> E / 2 ^ 53" using fl_err[of E] E(1) by (simp add: s_def)
  have "\<bar>r * s - r * E\<bar> = r * \<bar>s - E\<bar>" using r(1) by (simp add: abs_mult flip: right_diff_distrib)
  also have "\<dots> \<le> r * (E / 2 ^ 53)" using h1 r(1) by (rule mult_left_mono)
  also have "\<dots> \<le> 511 * (E / 2 ^ 53)" using r(2) Ed(1) by (rule mult_right_mono)
  finally have h2: "\<bar>r * s - r * E\<bar> \<le> 512 * d" by (simp only: Ed(2))
  have rE: "0 \<le> r * E" "r * E \<le> 512 * u"
  proof -
    show "0 \<le> r * E" using r(1) E(1) by simp
    have "r * E \<le> 511 * E" using r(2) E(1) by (intro mult_right_mono) simp_all
    then show "r * E \<le> 512 * u" by (simp only: E(2))
  qed
  have h3: "\<bar>r * s\<bar> \<le> 513 * u" using h2 rE d by linarith
  have "\<bar>t - r * s\<bar> \<le> \<bar>r * s\<bar> / 2 ^ 53" unfolding t_def by (rule fl_err)
  also have "\<dots> \<le> 513 * u / 2 ^ 53" using h3 by (simp add: divide_right_mono)
  also have "\<dots> = 513 * d" by (simp add: d_def)
  finally have h4: "\<bar>t - r * s\<bar> \<le> 513 * d" .
  have h5: "\<bar>v - (r * E - 256 * u)\<bar> \<le> 1025 * d" using h2 h4 unfolding v_def by linarith
  have h6: "\<bar>v\<bar> \<le> 257 * u" using h5 rE d by linarith
  have "\<bar>fl v - v\<bar> \<le> \<bar>v\<bar> / 2 ^ 53" by (rule fl_err)
  also have "\<dots> \<le> 257 * u / 2 ^ 53" using h6 by (simp add: divide_right_mono)
  also have "\<dots> = 257 * d" by (simp add: d_def)
  finally have h7: "\<bar>fl v - v\<bar> \<le> 257 * d" .
  have "x_grid64 u ! i = fl v"
    unfolding v_def t_def s_def E_def r_def by (rule x64_nth[OF u i])
  moreover have "\<bar>fl v - (r * E - 256 * u)\<bar> \<le> 1282 * d" using h5 h7 by linarith
  ultimately show ?thesis by (simp add: r_def E_def d_def)
qed

lemma x64_err:
  assumes u: "fl u = u" "0 < u" and i: "i < 512"
  shows "\<bar>x_grid64 u ! i - (real i * (512 * u / 511) - 256 * u)\<bar> \<le> u / 2 ^ 42"
proof (cases "i < 511")
  case True
  have "\<bar>x_grid64 u ! i - (real i * (512 * u / 511) - 256 * u)\<bar> \<le> 1282 * (u / 2 ^ 53)"
    using u True by (rule x64_err_inner)
  also have "\<dots> \<le> u / 2 ^ 42" using u(2) by simp
  finally show ?thesis .
next
  case False
  with i have "i = 511" by simp
  then show ?thesis using u(2) by (simp add: x64_last[OF u(1)])
qed

lemma x_exact_far:
  assumes u: "0 < u" and i: "i < 512"
  shows "256 * u / 511 \<le> \<bar>real i * (512 * u / 511) - 256 * u\<bar>"
proof (cases "i \<le> 255")
  case True
  then have "real i \<le> 255" by simp
  then have "real i * (512 * u / 511) \<le> 255 * (512 * u / 511)"
    using u by (intro mult_right_mono) simp_all
  then show ?thesis using u by (simp add: abs_le_iff field_simps)
next
  case False
  then have "256 \<le> real i" by simp
  then have "256 * (512 * u / 511) \<le> real i * (512 * u / 511)"
    using u by (intro mult_right_mono) simp_all
  then show ?thesis using u by (simp add: abs_le_iff field_simps)
qed

lemma x64_nonzero:
  assumes u: "fl u = u" "0 < u" and i: "i < 512"
  shows "x_grid64 u ! i \<noteq> 0"
proof -
  have a: "\<bar>x_grid64 u ! i - (real i * (512 * u / 511) - 256 * u)\<bar> \<le> u / 2 ^ 42"
    using u i by (rule x64_err)
  have b: "256 * u / 511 \<le> \<bar>real i * (512 * u / 511) - 256 * u\<bar>"
    using u(2) i by (rule x_exact_far)
  have c: "u / 2 ^ 42 < 256 * u / 511" using u(2) by simp
  from a b c show ?thesis by linarith
qed

lemma x64_mid:
  assumes u: "fl u = u" "0 < u"
  shows "\<bar>x_grid64 u ! 256 - 256 * u / 511\<bar> \<le> u / 2 ^ 42" "0 < x_grid64 u ! 256"
proof -
  have "\<bar>x_grid64 u ! 256 - (real 256 * (512 * u / 511) - 256 * u)\<bar> \<le> u / 2 ^ 42"
    using u by (rule x64_err) simp
  moreover have "real 256 * (512 * u / 511) - 256 * u = 256 * u / 511" by simp
  ultimately show a: "\<bar>x_grid64 u ! 256 - 256 * u / 511\<bar> \<le> u / 2 ^ 42" by simp
  have c: "u / 2 ^ 42 < 256 * u / 511" using u(2) by simp
  from a c show "0 < x_grid64 u ! 256" by linarith
qed

lemma x64_step:
  assumes u: "fl u = u" "0 < u" and i: "Suc i < 512"
  shows "\<bar>x_grid64 u ! Suc i - x_grid64 u ! i - 512 * u / 511\<bar> \<le> u / 2 ^ 41"
    "x_grid64 u ! Suc i - x_grid64 u ! i \<noteq> u"
proof -
  have a: "\<bar>x_grid64 u ! Suc i - (real (Suc i) * (512 * u / 511) - 256 * u)\<bar> \<le> u / 2 ^ 42"
    using u i by (rule x64_err)
  have i': "i < 512" using i by simp
  have b: "\<bar>x_grid64 u ! i - (real i * (512 * u / 511) - 256 * u)\<bar> \<le> u / 2 ^ 42"
    using u i' by (rule x64_err)
  have e: "real (Suc i) * (512 * u / 511) = real i * (512 * u / 511) + 512 * u / 511"
    by (simp add: algebra_simps)
  have h: "u / 2 ^ 42 + u / 2 ^ 42 = u / 2 ^ 41" by simp
  show c: "\<bar>x_grid64 u ! Suc i - x_grid64 u ! i - 512 * u / 511\<bar> \<le> u / 2 ^ 41"
    using a b h unfolding e by linarith
  have g: "u / 2 ^ 41 < 512 * u / 511 - u" using u(2) by simp
  from c g show "x_grid64 u ! Suc i - x_grid64 u ! i \<noteq> u" by linarith
qed

lemma x64_near_antisym:
  assumes u: "fl u = u" "0 < u" and i: "i < 512"
  shows "\<bar>x_grid64 u ! i + x_grid64 u ! (511 - i)\<bar> \<le> u / 2 ^ 41"
proof -
  have a: "\<bar>x_grid64 u ! i - (real i * (512 * u / 511) - 256 * u)\<bar> \<le> u / 2 ^ 42"
    using u i by (rule x64_err)
  have b: "\<bar>x_grid64 u ! (511 - i) - (real (511 - i) * (512 * u / 511) - 256 * u)\<bar> \<le> u / 2 ^ 42"
    using u by (rule x64_err) simp
  have r: "real (511 - i) = 511 - real i" using i by (simp add: of_nat_diff)
  have e: "real (511 - i) * (512 * u / 511) - 256 * u = - (real i * (512 * u / 511) - 256 * u)"
    unfolding r by (simp add: field_simps)
  have h: "u / 2 ^ 42 + u / 2 ^ 42 = u / 2 ^ 41" by simp
  show ?thesis using a b h unfolding e by linarith
qed

lemma fl_val_1: "fl (512 / 511) = 35253226045953 / 35184372088832"
  by (subst fl_eval[where k = 52]) (simp_all add: rne_def Let_def)

lemma fl_val_2: "fl (35253226045953 / 35184372088832) = 35253226045953 / 35184372088832"
  by (subst fl_eval[where k = 52]) (simp_all add: rne_def Let_def)

lemma fl_val_3: "fl (8971946028695039 / 35184372088832) = 8971946028695039 / 35184372088832"
  by (subst fl_eval[where k = 45]) (simp_all add: rne_def Let_def)

lemma x64_one_1: "x_grid64 1 ! 1 = - (8971946028695039 / 35184372088832)"
proof -
  have a: "x_grid64 1 ! 1 = fl (fl (real (1::nat) * fl (512 * 1 / 511)) + - (256 * 1))"
    by (rule x64_nth[OF fl_id_1]) (simp_all)
  have b1: "512 * 1 / 511 = (512 / 511 :: real)" by (simp)
  have b2: "real (1::nat) * (35253226045953 / 35184372088832) = (35253226045953 / 35184372088832 :: real)" by simp
  have b3: "35253226045953 / 35184372088832 + - (256 * 1) = (- (8971946028695039 / 35184372088832) :: real)" by (simp)
  show ?thesis by (simp only: a b1 fl_val_1 b2 fl_val_2 b3 fl_minus fl_val_3)
qed

lemma fl_val_4: "fl (8989572641718015 / 17592186044416) = 8989572641718015 / 17592186044416"
  by (subst fl_eval[where k = 44]) (simp_all add: rne_def Let_def)

lemma fl_val_5: "fl (4485973014347519 / 17592186044416) = 4485973014347519 / 17592186044416"
  by (subst fl_eval[where k = 45]) (simp_all add: rne_def Let_def)

lemma x64_one_510: "x_grid64 1 ! 510 = 4485973014347519 / 17592186044416"
proof -
  have a: "x_grid64 1 ! 510 = fl (fl (real (510::nat) * fl (512 * 1 / 511)) + - (256 * 1))"
    by (rule x64_nth[OF fl_id_1]) (simp_all)
  have b1: "512 * 1 / 511 = (512 / 511 :: real)" by (simp)
  have b2: "real (510::nat) * (35253226045953 / 35184372088832) = (8989572641718015 / 17592186044416 :: real)" by simp
  have b3: "8989572641718015 / 17592186044416 + - (256 * 1) = (4485973014347519 / 17592186044416 :: real)" by (simp)
  show ?thesis by (simp only: a b1 fl_val_1 b2 fl_val_4 b3 fl_minus fl_val_5)
qed

lemma fl_val_6: "fl (35253226045953 / 137438953472) = 35253226045953 / 137438953472"
  by (subst fl_eval[where k = 44]) (simp_all add: rne_def Let_def)

lemma fl_val_7: "fl (68853957121 / 137438953472) = 68853957121 / 137438953472"
  by (subst fl_eval[where k = 53]) (simp_all add: rne_def Let_def)

lemma x64_one_256: "x_grid64 1 ! 256 = 68853957121 / 137438953472"
proof -
  have a: "x_grid64 1 ! 256 = fl (fl (real (256::nat) * fl (512 * 1 / 511)) + - (256 * 1))"
    by (rule x64_nth[OF fl_id_1]) (simp_all)
  have b1: "512 * 1 / 511 = (512 / 511 :: real)" by (simp)
  have b2: "real (256::nat) * (35253226045953 / 35184372088832) = (35253226045953 / 137438953472 :: real)" by simp
  have b3: "35253226045953 / 137438953472 + - (256 * 1) = (68853957121 / 137438953472 :: real)" by (simp)
  show ?thesis by (simp only: a b1 fl_val_1 b2 fl_val_6 b3 fl_minus fl_val_7)
qed

lemma fl_val_8: "fl (4722366482869645 / 4713143110832790437888) = 4731607904558235 / 4722366482869645213696"
  by (subst fl_eval[where k = 72]) (simp_all add: rne_def Let_def)

lemma fl_val_9: "fl (4731607904558235 / 4722366482869645213696) = 4731607904558235 / 4722366482869645213696"
  by (subst fl_eval[where k = 72]) (simp_all add: rne_def Let_def)

lemma fl_val_10: "fl (1204194211710070885 / 4722366482869645213696) = 293992727468279 / 1152921504606846976"
  by (subst fl_eval[where k = 64]) (simp_all add: rne_def Let_def)

lemma x64_um_1: "x_grid64 um_1e6 ! 1 = - (293992727468279 / 1152921504606846976)"
proof -
  have a: "x_grid64 um_1e6 ! 1 = fl (fl (real (1::nat) * fl (512 * um_1e6 / 511)) + - (256 * um_1e6))"
    by (rule x64_nth[OF fl_um_1e6]) (simp_all add: um_1e6_def)
  have b1: "512 * um_1e6 / 511 = (4722366482869645 / 4713143110832790437888 :: real)" by (simp add: um_1e6_def)
  have b2: "real (1::nat) * (4731607904558235 / 4722366482869645213696) = (4731607904558235 / 4722366482869645213696 :: real)" by simp
  have b3: "4731607904558235 / 4722366482869645213696 + - (256 * um_1e6) = (- (1204194211710070885 / 4722366482869645213696) :: real)" by (simp add: um_1e6_def)
  show ?thesis by (simp only: a b1 fl_val_8 b2 fl_val_9 b3 fl_minus fl_val_10)
qed

lemma fl_val_11: "fl (1206560015662349925 / 2361183241434822606848) = 2356562530590527 / 4611686018427387904"
  by (subst fl_eval[where k = 63]) (simp_all add: rne_def Let_def)

lemma fl_val_12: "fl (4703883639492463 / 18446744073709551616) = 4703883639492463 / 18446744073709551616"
  by (subst fl_eval[where k = 64]) (simp_all add: rne_def Let_def)

lemma x64_um_510: "x_grid64 um_1e6 ! 510 = 4703883639492463 / 18446744073709551616"
proof -
  have a: "x_grid64 um_1e6 ! 510 = fl (fl (real (510::nat) * fl (512 * um_1e6 / 511)) + - (256 * um_1e6))"
    by (rule x64_nth[OF fl_um_1e6]) (simp_all add: um_1e6_def)
  have b1: "512 * um_1e6 / 511 = (4722366482869645 / 4713143110832790437888 :: real)" by (simp add: um_1e6_def)
  have b2: "real (510::nat) * (4731607904558235 / 4722366482869645213696) = (1206560015662349925 / 2361183241434822606848 :: real)" by simp
  have b3: "2356562530590527 / 4611686018427387904 + - (256 * um_1e6) = (4703883639492463 / 18446744073709551616 :: real)" by (simp add: um_1e6_def)
  show ?thesis by (simp only: a b1 fl_val_8 b2 fl_val_11 b3 fl_minus fl_val_12)
qed
text \<open>
  C8. The grid of line 68 as float64 stores it, for a unit \<open>u\<close> that is a float64 number of the
  normal range (the library's \<^verbatim>\<open>um\<close>; the bounds on \<open>u\<close> keep every intermediate result
  away from overflow and from the subnormal numbers). \<^verbatim>\<open>res = 1*um\<close> is \<open>u\<close>. The endpoints are
  included: \<open>x[0] = - 256 u\<close> and \<open>x[511] = 256 u\<close> exactly. Every stored sample is within
  \<open>u / 2\<^sup>4\<^sup>2\<close> of the exact sample \<open>x_grid u ! i\<close>, so: consecutive samples differ by
  \<open>res * n_pts / (n_pts - 1)\<close>, which is 512/511 of \<open>res\<close>, up to \<open>u / 2\<^sup>4\<^sup>1\<close>, and never by
  \<open>res\<close>; \<open>x[i] + x[n_pts - 1 - i]\<close> is at most \<open>u / 2\<^sup>4\<^sup>1\<close> in magnitude (the exact samples are
  antisymmetric, the stored ones only up to rounding); no stored sample is zero; and the
  sample at \<open>mid = 256\<close> is within \<open>u / 2\<^sup>4\<^sup>2\<close> of \<open>res * n_pts / (2 * (n_pts - 1))\<close> and is
  positive, half a grid step off the axis.
\<close>

theorem grid_float64:
  assumes "fl u = u" "1 / 2 ^ 500 \<le> u" "u \<le> 2 ^ 500"
  shows "length (x_grid64 u) = n_pts
    \<and> res64 u = u
    \<and> x_grid64 u ! 0 = - (res64 u * real n_pts / 2)
    \<and> x_grid64 u ! (n_pts - 1) = res64 u * real n_pts / 2
    \<and> (\<forall>i < n_pts. \<bar>x_grid64 u ! i - x_grid u ! i\<bar> \<le> u / 2 ^ 42)
    \<and> (\<forall>i. Suc i < n_pts \<longrightarrow>
          x_grid u ! Suc i - x_grid u ! i = res u * real n_pts / real (n_pts - 1)
        \<and> \<bar>x_grid64 u ! Suc i - x_grid64 u ! i - res64 u * real n_pts / real (n_pts - 1)\<bar>
            \<le> u / 2 ^ 41
        \<and> x_grid64 u ! Suc i - x_grid64 u ! i \<noteq> res64 u)
    \<and> res64 u * real n_pts / real (n_pts - 1) = 512 / 511 * u
    \<and> (\<forall>i < n_pts. x_grid u ! i = - x_grid u ! (n_pts - 1 - i)
        \<and> \<bar>x_grid64 u ! i + x_grid64 u ! (n_pts - 1 - i)\<bar> \<le> u / 2 ^ 41)
    \<and> 0 \<notin> set (x_grid64 u)
    \<and> mid = 256
    \<and> \<bar>x_grid64 u ! mid - res64 u * real n_pts / (2 * real (n_pts - 1))\<bar> \<le> u / 2 ^ 42
    \<and> 0 < x_grid64 u ! mid"
proof -
  have pos: "0 < u"
  proof -
    have "(0::real) < 1 / 2 ^ 500" by simp
    from this assms(2) show ?thesis by (rule less_le_trans)
  qed
  note u = assms(1) pos
  have r: "res64 u = u" using assms(1) by (rule res64_id)
  have c1: "length (x_grid64 u) = n_pts" by (rule len_x64)
  have c3: "x_grid64 u ! 0 = - (res64 u * real n_pts / 2)"
    unfolding r x64_first[OF u] by (simp add: n_pts_def)
  have c4: "x_grid64 u ! (n_pts - 1) = res64 u * real n_pts / 2"
    unfolding r using x64_last[OF u(1)] by (simp add: n_pts_def)
  have c5: "\<forall>i < n_pts. \<bar>x_grid64 u ! i - x_grid u ! i\<bar> \<le> u / 2 ^ 42"
  proof (intro allI impI)
    fix i assume "i < n_pts"
    then have i: "i < 512" by (simp add: n_pts_def)
    have e: "x_grid u ! i = real i * (512 * u / 511) - 256 * u"
      unfolding x_nth[OF i] by (simp add: algebra_simps)
    show "\<bar>x_grid64 u ! i - x_grid u ! i\<bar> \<le> u / 2 ^ 42"
      unfolding e using u i by (rule x64_err)
  qed
  have v: "res64 u * real n_pts / real (n_pts - 1) = 512 * u / 511"
    unfolding r by (simp add: n_pts_def)
  have c6: "\<forall>i. Suc i < n_pts \<longrightarrow>
          x_grid u ! Suc i - x_grid u ! i = res u * real n_pts / real (n_pts - 1)
        \<and> \<bar>x_grid64 u ! Suc i - x_grid64 u ! i - res64 u * real n_pts / real (n_pts - 1)\<bar>
            \<le> u / 2 ^ 41
        \<and> x_grid64 u ! Suc i - x_grid64 u ! i \<noteq> res64 u"
  proof (intro allI impI conjI)
    fix i assume a: "Suc i < n_pts"
    then have i: "Suc i < 512" by (simp add: n_pts_def)
    show "x_grid u ! Suc i - x_grid u ! i = res u * real n_pts / real (n_pts - 1)"
      using a by (rule x_step)
    show "\<bar>x_grid64 u ! Suc i - x_grid64 u ! i - res64 u * real n_pts / real (n_pts - 1)\<bar>
            \<le> u / 2 ^ 41"
      unfolding v using u i by (rule x64_step(1))
    show "x_grid64 u ! Suc i - x_grid64 u ! i \<noteq> res64 u"
      unfolding r using u i by (rule x64_step(2))
  qed
  have c7: "res64 u * real n_pts / real (n_pts - 1) = 512 / 511 * u"
    unfolding v by simp
  have c8: "\<forall>i < n_pts. x_grid u ! i = - x_grid u ! (n_pts - 1 - i)
        \<and> \<bar>x_grid64 u ! i + x_grid64 u ! (n_pts - 1 - i)\<bar> \<le> u / 2 ^ 41"
  proof (intro allI impI conjI)
    fix i assume "i < n_pts"
    then have i: "i < 512" by (simp add: n_pts_def)
    have n: "n_pts - 1 - i = 511 - i" by (simp add: n_pts_def)
    show "x_grid u ! i = - x_grid u ! (n_pts - 1 - i)"
      unfolding n using i by (rule x_antisym)
    show "\<bar>x_grid64 u ! i + x_grid64 u ! (n_pts - 1 - i)\<bar> \<le> u / 2 ^ 41"
      unfolding n using u i by (rule x64_near_antisym)
  qed
  have c9: "0 \<notin> set (x_grid64 u)"
  proof
    assume "0 \<in> set (x_grid64 u)"
    then obtain i where i: "i < length (x_grid64 u)" and z: "x_grid64 u ! i = 0"
      by (auto simp: in_set_conv_nth)
    from i have "i < 512" by (simp add: len_x64 n_pts_def)
    with u have "x_grid64 u ! i \<noteq> 0" by (rule x64_nonzero)
    with z show False by simp
  qed
  have c11: "\<bar>x_grid64 u ! mid - res64 u * real n_pts / (2 * real (n_pts - 1))\<bar> \<le> u / 2 ^ 42"
    unfolding r mid_val using x64_mid(1)[OF u] by (simp add: n_pts_def)
  have c12: "0 < x_grid64 u ! mid"
    unfolding mid_val using u by (rule x64_mid(2))
  show ?thesis
    by (intro conjI; (fact c1 r c3 c4 c5 c6 c7 c8 c9 mid_val c11 c12))
qed

theorem grid_float64_witness:
  "fl 1 = 1 \<and> 1 / 2 ^ 500 \<le> (1::real) \<and> (1::real) \<le> 2 ^ 500
   \<and> length (x_grid64 1) = 512
   \<and> x_grid64 1 ! 0 = - 256
   \<and> x_grid64 1 ! 511 = 256
   \<and> \<bar>x_grid64 1 ! 256 - 256 / 511\<bar> \<le> 1 / 2 ^ 42
   \<and> 0 < x_grid64 1 ! 256"
proof -
  have h2: "1 / 2 ^ 500 \<le> (1::real)" by simp
  have h3: "(1::real) \<le> 2 ^ 500" by simp
  note g = grid_float64[OF fl_id_1 h2 h3]
  have r: "res64 1 = 1" using g by (elim conjE)
  have a: "length (x_grid64 1) = 512" using g by (simp add: n_pts_def)
  have "x_grid64 1 ! 0 = - (res64 1 * real n_pts / 2)" using g by (elim conjE)
  then have b: "x_grid64 1 ! 0 = - 256" by (simp add: r n_pts_def)
  have "x_grid64 1 ! (n_pts - 1) = res64 1 * real n_pts / 2" using g by (elim conjE)
  then have c: "x_grid64 1 ! 511 = 256" by (simp add: r n_pts_def)
  have m: "mid = 256" using g by (elim conjE)
  have "\<bar>x_grid64 1 ! mid - res64 1 * real n_pts / (2 * real (n_pts - 1))\<bar> \<le> 1 / 2 ^ 42"
    using g by (elim conjE)
  then have d: "\<bar>x_grid64 1 ! 256 - 256 / 511\<bar> \<le> 1 / 2 ^ 42" by (simp add: r m n_pts_def)
  have "0 < x_grid64 1 ! mid" using g by (elim conjE)
  then have e: "0 < x_grid64 1 ! 256" by (simp add: m)
  show ?thesis by (intro conjI; (fact fl_id_1 h2 h3 a b c d e))
qed

text \<open>
  The stored grid is not exactly what the exact one is: for the unit 1.0 the samples \<open>x[1]\<close>
  and \<open>x[510]\<close> are not opposite (they differ in the last bit of the significand), the
  difference \<open>x[1] - x[0]\<close> is not \<open>res * n_pts / (n_pts - 1)\<close>, and \<open>x[mid]\<close> is not
  \<open>res * n_pts / (2 * (n_pts - 1))\<close>; for the unit \<^verbatim>\<open>1e-6\<close> the samples \<open>x[1]\<close> and \<open>x[510]\<close>
  are not opposite either. Both units are float64 numbers.
\<close>

theorem grid_not_antisymmetric:
  "fl 1 = 1
   \<and> x_grid64 1 ! 1 \<noteq> - x_grid64 1 ! (n_pts - 1 - 1)
   \<and> x_grid64 1 ! 1 - x_grid64 1 ! 0 \<noteq> res64 1 * real n_pts / real (n_pts - 1)
   \<and> x_grid64 1 ! mid \<noteq> res64 1 * real n_pts / (2 * real (n_pts - 1))
   \<and> fl um_1e6 = um_1e6
   \<and> x_grid64 um_1e6 ! 1 \<noteq> - x_grid64 um_1e6 ! (n_pts - 1 - 1)"
proof -
  have n: "n_pts - 1 - 1 = 510" by (simp add: n_pts_def)
  have r: "res64 1 = 1" using fl_id_1 by (rule res64_id)
  have z: "x_grid64 1 ! 0 = - 256" using x64_first[OF fl_id_1] by simp
  have a: "x_grid64 1 ! 1 \<noteq> - x_grid64 1 ! (n_pts - 1 - 1)"
    unfolding n x64_one_1 x64_one_510 by simp
  have s: "x_grid64 1 ! 1 - x_grid64 1 ! 0 \<noteq> res64 1 * real n_pts / real (n_pts - 1)"
    unfolding r z x64_one_1 by (simp add: n_pts_def)
  have m: "x_grid64 1 ! mid \<noteq> res64 1 * real n_pts / (2 * real (n_pts - 1))"
    unfolding r mid_val x64_one_256 by (simp add: n_pts_def)
  have b: "x_grid64 um_1e6 ! 1 \<noteq> - x_grid64 um_1e6 ! (n_pts - 1 - 1)"
    unfolding n x64_um_1 x64_um_510 by simp
  show ?thesis by (intro conjI; (fact fl_id_1 a s m fl_um_1e6 b))
qed


end
